theory Spec2Isabelle
  imports Complex_Main "HOL-Library.Char_ord" "HOL-Library.List_Lexorder" "HOL-Library.AList"
begin

section \<open>Label resolution: the prefix regular expression and the sorted search\<close>

text \<open>
  The generator resolves a patch label against a hardware label table with
  \<^verbatim>\<open>new RegExp(`^${k}_?(.+)?`).exec(label)\<close> for every key \<open>k\<close> of the table, in
  \<^verbatim>\<open>Object.keys(table).sort()\<close> order (oopsy.js, generate_app).

  The key is pasted into the source of the regular expression. The model covers keys
  made of letters, digits and underscores (what a hardware name has to be, since it
  is emitted as a C++ identifier): such a key stands for itself in the expression.
\<close>

definition ident_char :: "char \<Rightarrow> bool" where
  "ident_char c =
     ((CHR ''a'' \<le> c \<and> c \<le> CHR ''z'') \<or> (CHR ''A'' \<le> c \<and> c \<le> CHR ''Z'')
      \<or> (CHR ''0'' \<le> c \<and> c \<le> CHR ''9'') \<or> c = CHR ''_'')"

definition literal_key :: "string \<Rightarrow> bool" where
  "literal_key k = list_all ident_char k"

text \<open>The dot of a regular expression matches every character but a line terminator.\<close>

definition line_terminator :: "char \<Rightarrow> bool" where
  "line_terminator c = (c = CHR 0x0A \<or> c = CHR 0x0D)"

text \<open>
  \<^verbatim>\<open>new RegExp(`^${k}_?(.+)?`).exec(label)\<close>: \<open>None\<close> is JavaScript's \<open>null\<close> (no match),
  \<open>Some cap\<close> is a match whose capture group \<open>match[1]\<close> is \<open>cap\<close> (\<open>None\<close> for
  \<open>undefined\<close>). After the key an underscore is consumed when there is one, then the
  group takes the longest run of characters that are not line terminators; an empty
  run leaves the group undefined.
\<close>

definition label_regex_exec :: "string \<Rightarrow> string \<Rightarrow> string option option" where
  "label_regex_exec k label =
     (if take (length k) label = k then
        (let rest = drop (length k) label;
             rest' = (case rest of [] \<Rightarrow> rest
                      | c # cs \<Rightarrow> if c = CHR ''_'' then cs else rest);
             cap = takeWhile (\<lambda>c. \<not> line_terminator c) rest'
         in Some (if cap = [] then None else Some cap))
      else None)"

text \<open>
  A label table (\<^verbatim>\<open>hardware.labels.outs\<close>, \<^verbatim>\<open>hardware.labels.params\<close>) is a JavaScript
  object from names to names: an association list whose keys are distinct.
  \<^verbatim>\<open>Object.keys(t)\<close> is \<open>map fst t\<close>, \<^verbatim>\<open>t[k]\<close> is \<open>map_of t k\<close>.
\<close>

type_synonym label_table = "(string \<times> string) list"

text \<open>
  The search of generate_app for a patch outlet:
  \<^verbatim>\<open>
  let map
  let maplabel
  Object.keys(hardware.labels.outs).sort().forEach(k => {
      let match
      if (match = new RegExp(`^${k}_?(.+)?`).exec(label)) {
          map = hardware.labels.outs[k];
          maplabel = match[1] || label
      }
  })
  \<close>
  The state of the loop is the pair \<open>(map, maplabel)\<close>, both \<open>undefined\<close> at first.
\<close>

definition out_search_step ::
  "label_table \<Rightarrow> string \<Rightarrow> string option \<times> string option \<Rightarrow> string
     \<Rightarrow> string option \<times> string option" where
  "out_search_step outs label st k =
     (case label_regex_exec k label of
        None \<Rightarrow> st
      | Some cap \<Rightarrow> (map_of outs k, Some (case cap of None \<Rightarrow> label | Some c \<Rightarrow> c)))"

definition out_search :: "label_table \<Rightarrow> string \<Rightarrow> string option \<times> string option" where
  "out_search outs label =
     foldl (out_search_step outs label) (None, None) (sort (map fst outs))"

text \<open>The keys of the table that match a label, in sorted order.\<close>

definition matching_keys :: "label_table \<Rightarrow> string \<Rightarrow> string list" where
  "matching_keys outs label =
     filter (\<lambda>k. label_regex_exec k label \<noteq> None) (sort (map fst outs))"

section \<open>Patch parameters: range defaults, type qualifier and step size\<close>

text \<open>
  A visible parameter as analyze_json hands it on:
  \<^verbatim>\<open>{ name: param.name, cindex: param.index, default: param.initialValue,
     min: param.minimum, max: param.maximum }\<close>.
  JavaScript numbers are modelled as reals: the values a descriptor gives, their
  differences and the quotients by 100 are taken exactly. The logarithm is not (see
  \<open>subdivision\<close>). A field the patch descriptor leaves out is \<open>undefined\<close>, here
  \<open>None\<close>.
\<close>

record patch_param =
  param_name :: string
  param_cindex :: nat
  param_default :: "real option"
  param_min :: "real option"
  param_max :: "real option"

text \<open>The parameter node that generate_app stores under \<open>varname\<close>.\<close>

record param_node =
  node_varname :: string
  node_name :: string
  node_cindex :: nat
  node_default :: real
  node_min :: real
  node_max :: real
  node_range :: real
  node_type :: string
  node_src :: "string option"
  node_label :: string
  node_stepsize :: real

text \<open>\<^verbatim>\<open>x || d\<close> on a number that may be undefined: \<open>undefined\<close> and \<open>0\<close> are falsy.\<close>

definition js_or_num :: "real option \<Rightarrow> real \<Rightarrow> real" where
  "js_or_num x d = (case x of None \<Rightarrow> d | Some v \<Rightarrow> if v = 0 then d else v)"

text \<open>
  The value a descriptor declares for a field: the one it gives, and the default of
  the field where the descriptor leaves it out.
\<close>

definition declared :: "real option \<Rightarrow> real \<Rightarrow> real" where
  "declared x d = (case x of None \<Rightarrow> d | Some v \<Rightarrow> v)"

text \<open>\<^verbatim>\<open>Number.isInteger\<close>.\<close>

definition is_integer :: "real \<Rightarrow> bool" where
  "is_integer x = (of_int \<lfloor>x\<rfloor> = x)"

text \<open>
  The decimal text of a number, as string concatenation and template literals write
  it: the digits are produced from the last one backwards.
\<close>

definition digit_char :: "nat \<Rightarrow> char" where
  "digit_char d = ''0123456789'' ! (d mod 10)"

fun decimal_digits :: "nat \<Rightarrow> string \<Rightarrow> string" where
  "decimal_digits n acc =
     (if n div 10 = 0 then digit_char n # acc
      else decimal_digits (n div 10) (digit_char n # acc))"

definition nat_text :: "nat \<Rightarrow> string" where
  "nat_text n = decimal_digits n []"

text \<open>
  \<^verbatim>\<open>label.match(/^(int|bool)(_(.*))?$/)\<close>: \<open>None\<close> is no match, \<open>Some (t, r)\<close> is a match
  with \<open>match[1] = t\<close> and \<open>match[3] = r\<close> (\<open>None\<close> when the second group took no part).
  Without the \<open>m\<close> flag the dollar matches at the end of the label only, so the rest
  after the underscore holds no line terminator.
\<close>

definition type_regex_match :: "string \<Rightarrow> (string \<times> string option) option" where
  "type_regex_match l =
     (if l = ''int'' then Some (''int'', None)
      else if l = ''bool'' then Some (''bool'', None)
      else if take 4 l = ''int_'' \<and> list_all (\<lambda>c. \<not> line_terminator c) (drop 4 l)
        then Some (''int'', Some (drop 4 l))
      else if take 5 l = ''bool_'' \<and> list_all (\<lambda>c. \<not> line_terminator c) (drop 5 l)
        then Some (''bool'', Some (drop 5 l))
      else None)"

text \<open>
  The search for a controlling input, with the type qualifier:
  \<^verbatim>\<open>
  let src, label=param.name, type="float";
  Object.keys(hardware.labels.params).sort().forEach(k => {
      if (match = new RegExp(`^${k}_?(.+)?`).exec(param.name)) {
          src = hardware.labels.params[k];
          label = match[1] || param.name
          if (match = label.match(/^(int|bool)(_(.*))?$/)) {
              type = match[1]
              label = match[3] || label
          }
      }
  })
  \<close>
  The state of the loop is \<open>(src, label, type)\<close>.
\<close>

definition param_search_step ::
  "label_table \<Rightarrow> string \<Rightarrow> string option \<times> string \<times> string \<Rightarrow> string
     \<Rightarrow> string option \<times> string \<times> string" where
  "param_search_step params pname st k =
     (case label_regex_exec k pname of
        None \<Rightarrow> st
      | Some cap \<Rightarrow>
          (let src = map_of params k;
               label = (case cap of None \<Rightarrow> pname | Some c \<Rightarrow> c)
           in case type_regex_match label of
                None \<Rightarrow> (src, label, snd (snd st))
              | Some (t, r) \<Rightarrow>
                  (src, (case r of None \<Rightarrow> label
                         | Some l \<Rightarrow> if l = [] then label else l), t)))"

definition param_search :: "label_table \<Rightarrow> string \<Rightarrow> string option \<times> string \<times> string" where
  "param_search params pname =
     foldl (param_search_step params pname) (None, pname, ''float'') (sort (map fst params))"

text \<open>
  The step size:
  \<^verbatim>\<open>
  let ideal_steps = 100 // about 4 good twists of the encoder
  if (node.type == "bool" || node.type == "int") {
      node.stepsize = 1
  } else {
      if (node.range > 2 && Number.isInteger(node.max) && Number.isInteger(node.max)
          && Number.isInteger(node.default)) {
          if (node.range < 10) {
              node.stepsize = 1/12
          } else {
              let power = Math.round(Math.log2(node.range / ideal_steps))
              node.stepsize = Math.pow(2, power)
          }
      }
  }
  if (!node.stepsize) {
      node.stepsize = node.range / ideal_steps
  }
  \<close>
  \<open>encoder_stepsize\<close> is the first statement (\<open>None\<close>: the field is still undefined),
  \<open>derive_stepsize\<close> adds the general case. \<^verbatim>\<open>Math.round\<close> rounds a half upwards, as
  \<open>round\<close> does.
\<close>

definition ideal_steps :: real where
  "ideal_steps = 100"

text \<open>
  \<^verbatim>\<open>Math.pow(2, Math.round(Math.log2(x)))\<close>. \<^verbatim>\<open>Math.log2\<close> belongs to the runtime, not
  to the repository, and works on double-precision numbers: what it returns is close
  to the logarithm but need not be the logarithm, and rounding to an integer can turn
  a small error into a different power (a quotient whose logarithm lies just below a
  half is rounded upwards once the double result is the half itself). The model
  therefore takes the function as a parameter \<open>math_log2\<close>: \<open>math_log2 x\<close> is what the
  runtime returns for the quotient \<open>x\<close>. \<^verbatim>\<open>Math.round\<close> is exact on its argument and
  a power of two with an integer exponent is exact. Real power has no executable
  equations, so the definition is kept out of the code equations.
\<close>

definition subdivision :: "(real \<Rightarrow> real) \<Rightarrow> real \<Rightarrow> real" where
  "subdivision math_log2 x = 2 powr real_of_int (round (math_log2 x))"

declare subdivision_def [code del]

text \<open>
  The logarithm without rounding error, the instance of \<open>math_log2\<close> that the examples
  are evaluated with.
\<close>

definition exact_log2 :: "real \<Rightarrow> real" where
  "exact_log2 x = log 2 x"

declare exact_log2_def [code del]

definition encoder_stepsize ::
  "(real \<Rightarrow> real) \<Rightarrow> string \<Rightarrow> real \<Rightarrow> real \<Rightarrow> real \<Rightarrow> real option" where
  "encoder_stepsize math_log2 type mx dflt rng =
     (if type = ''bool'' \<or> type = ''int'' then Some 1
      else if rng > 2 \<and> is_integer mx \<and> is_integer mx \<and> is_integer dflt then
        (if rng < 10 then Some (1 / 12)
         else Some (subdivision math_log2 (rng / ideal_steps)))
      else None)"

definition derive_stepsize ::
  "(real \<Rightarrow> real) \<Rightarrow> string \<Rightarrow> real \<Rightarrow> real \<Rightarrow> real \<Rightarrow> real" where
  "derive_stepsize math_log2 type mx dflt rng =
     (case encoder_stepsize math_log2 type mx dflt rng of
        None \<Rightarrow> rng / ideal_steps
      | Some s \<Rightarrow> if s = 0 then rng / ideal_steps else s)"

text \<open>
  One step of \<^verbatim>\<open>rnbo.params = app.patch.params.map((param, i) => ...)\<close>: the node built
  for a parameter, before it is stored under its varname.
  \<^verbatim>\<open>
  node.max = node.max || 1;
  node.min = node.min || 0;
  node.default = node.default || 0;
  node.range = node.max - node.min;
  \<close>
\<close>

definition rnbo_param ::
  "(real \<Rightarrow> real) \<Rightarrow> label_table \<Rightarrow> patch_param \<Rightarrow> param_node" where
  "rnbo_param math_log2 params param =
     (let varname = ''rnbo_param_'' @ param_name param @ ''_''
                      @ nat_text (param_cindex param);
          mx = js_or_num (param_max param) 1;
          mn = js_or_num (param_min param) 0;
          dflt = js_or_num (param_default param) 0;
          rng = mx - mn;
          found = param_search params (param_name param);
          type = snd (snd found)
      in \<lparr> node_varname = varname, node_name = param_name param,
           node_cindex = param_cindex param, node_default = dflt, node_min = mn,
           node_max = mx, node_range = rng, node_type = type, node_src = fst found,
           node_label = fst (snd found),
           node_stepsize = derive_stepsize math_log2 type mx dflt rng \<rparr>)"

section \<open>JavaScript values, templates and interpolation\<close>

text \<open>
  The target descriptor is JSON and the component registry is an object literal: values
  are modelled as a datatype, an object as an association list in key order
  (\<^verbatim>\<open>o[k]\<close> is \<open>js_get o k\<close>, \<^verbatim>\<open>o[k] = v\<close> is \<open>AList.update k v o\<close>, which keeps the
  place of a key that is there and appends a new one). \<open>js_get\<close> reads the object's
  own fields and is used with the keys the generator names in its text
  (\<^verbatim>\<open>name\<close>, \<^verbatim>\<open>get\<close>, \<^verbatim>\<open>set\<close>, \<^verbatim>\<open>automap\<close>, ...), none of which an object inherits;
  where the key is data (\<open>interpolate\<close>, the kind of a component) the inherited
  properties are modelled too. Numbers in the descriptors are integers.
\<close>

datatype jsval = JUndefined | JNull | JBool bool | JNum int | JStr string
  | JArr "jsval list" | JObj "(string \<times> jsval) list"

type_synonym jsobj = "(string \<times> jsval) list"

definition js_get :: "jsobj \<Rightarrow> string \<Rightarrow> jsval" where
  "js_get obj k = (case map_of obj k of None \<Rightarrow> JUndefined | Some v \<Rightarrow> v)"

fun js_truthy :: "jsval \<Rightarrow> bool" where
  "js_truthy JUndefined = False"
| "js_truthy JNull = False"
| "js_truthy (JBool b) = b"
| "js_truthy (JNum n) = (n \<noteq> 0)"
| "js_truthy (JStr s) = (s \<noteq> [])"
| "js_truthy (JArr vs) = True"
| "js_truthy (JObj kvs) = True"

text \<open>\<^verbatim>\<open>a && b\<close> and \<^verbatim>\<open>a || b\<close> return one of their operands.\<close>

definition js_and :: "jsval \<Rightarrow> jsval \<Rightarrow> jsval" where
  "js_and a b = (if js_truthy a then b else a)"

definition js_or :: "jsval \<Rightarrow> jsval \<Rightarrow> jsval" where
  "js_or a b = (if js_truthy a then a else b)"

text \<open>\<^verbatim>\<open>v == undefined\<close> holds for \<open>undefined\<close> and \<open>null\<close>.\<close>

definition js_is_undefined :: "jsval \<Rightarrow> bool" where
  "js_is_undefined v = (v = JUndefined \<or> v = JNull)"

definition int_text :: "int \<Rightarrow> string" where
  "int_text i = (if i < 0 then CHR ''-'' # nat_text (nat (- i)) else nat_text (nat i))"

fun join :: "string \<Rightarrow> string list \<Rightarrow> string" where
  "join sep [] = []"
| "join sep [s] = s"
| "join sep (s # t # ss) = s @ sep @ join sep (t # ss)"

text \<open>The text a value becomes inside a string: \<^verbatim>\<open>String(v)\<close>.\<close>

fun to_string :: "jsval \<Rightarrow> string" where
  "to_string JUndefined = ''undefined''"
| "to_string JNull = ''null''"
| "to_string (JBool b) = (if b then ''true'' else ''false'')"
| "to_string (JNum n) = int_text n"
| "to_string (JStr s) = s"
| "to_string (JArr vs) =
     join '',''
       (map (\<lambda>v. case v of JUndefined \<Rightarrow> [] | JNull \<Rightarrow> [] | _ \<Rightarrow> to_string v) vs)"
| "to_string (JObj kvs) = ''[object Object]''"

text \<open>
  oopsy.shared.js:
  \<^verbatim>\<open>
  // returns str with any $<key> replaced by data[key]
  interpolate: function (str, data) {
      return str.replace(/\$<([^>]+)>/gm, (s, key) => data[key])
  },
  \<close>
  The expression matches \<^verbatim>\<open>$<\<close>, one or more characters other than \<^verbatim>\<open>>\<close>, and \<^verbatim>\<open>>\<close>;
  \<open>replace\<close> turns what the callback returns into a string. Where no match starts at
  a character, the character is copied.

  \<^verbatim>\<open>data[key]\<close> reads the object's own field and, where there is none, the field its
  prototype has. The nodes are written as object literals or built by
  \<^verbatim>\<open>Object.assign\<close> from one, so their prototype is \<^verbatim>\<open>Object.prototype\<close>, whose
  properties are listed in \<open>object_prototype_names\<close>: \<^verbatim>\<open>__proto__\<close> reads as the
  prototype itself, \<^verbatim>\<open>constructor\<close> as the function \<^verbatim>\<open>Object\<close>, every other one as
  a built-in function of that name. \<open>inherited_text\<close> is the text such a value
  becomes inside a string (for a built-in function, the form the runtime prints it
  in).
\<close>

definition object_prototype_names :: "string list" where
  "object_prototype_names =
     [''constructor'', ''__defineGetter__'', ''__defineSetter__'', ''hasOwnProperty'',
      ''__lookupGetter__'', ''__lookupSetter__'', ''isPrototypeOf'',
      ''propertyIsEnumerable'', ''toString'', ''valueOf'', ''__proto__'',
      ''toLocaleString'']"

definition inherited_text :: "string \<Rightarrow> string option" where
  "inherited_text key =
     (if key \<notin> set object_prototype_names then None
      else if key = ''__proto__'' then Some ''[object Object]''
      else if key = ''constructor'' then Some ''function Object() { [native code] }''
      else Some (''function '' @ key @ ''() { [native code] }''))"

definition property_text :: "jsobj \<Rightarrow> string \<Rightarrow> string" where
  "property_text data key =
     (case map_of data key of
        Some v \<Rightarrow> to_string v
      | None \<Rightarrow> (case inherited_text key of Some t \<Rightarrow> t | None \<Rightarrow> ''undefined''))"

function interpolate :: "string \<Rightarrow> jsobj \<Rightarrow> string" where
  "interpolate [] data = []"
| "interpolate (c # cs) data =
     (if c = CHR ''$'' \<and> take 1 cs = ''<''
         \<and> takeWhile (\<lambda>x. x \<noteq> CHR ''>'') (tl cs) \<noteq> []
         \<and> dropWhile (\<lambda>x. x \<noteq> CHR ''>'') (tl cs) \<noteq> []
      then property_text data (takeWhile (\<lambda>x. x \<noteq> CHR ''>'') (tl cs))
             @ interpolate (tl (dropWhile (\<lambda>x. x \<noteq> CHR ''>'') (tl cs))) data
      else c # interpolate cs data)"
  by pat_completeness auto
termination
proof (relation "measure (\<lambda>(s, data). length s)")
  show "wf (measure (\<lambda>(s, data). length s))" by simp
next
  fix c :: char and cs :: string and data :: jsobj
  have "length (dropWhile (\<lambda>x. x \<noteq> CHR ''>'') (tl cs)) \<le> length (tl cs)"
    by (rule length_dropWhile_le)
  then show "((tl (dropWhile (\<lambda>x. x \<noteq> CHR ''>'') (tl cs)), data), (c # cs, data))
      \<in> measure (\<lambda>(s, data). length s)"
    by simp
next
  fix c :: char and cs :: string and data :: jsobj
  show "((cs, data), (c # cs, data)) \<in> measure (\<lambda>(s, data). length s)" by simp
qed

text \<open>
  oopsy.shared.js:
  \<^verbatim>\<open>
  template: (template, vars = {}) => {
      const handler = new Function(
          "vars",
          [
              "const f = (" + Object.keys(vars).join(", ") + ")=>",
              "`" + template + "`",
              "return f(...Object.values(vars))"
          ].join("\n")
      );
      return handler(vars);
  },
  \<close>
  The text is compiled as a template literal inside an arrow function whose
  parameters are the keys of \<open>vars\<close>. The model covers the templates the registry is
  written in, applied to the objects the descriptors hold: plain text with
  substitutions \<^verbatim>\<open>${x}\<close> of a single identifier that is a key of \<open>vars\<close>, every key
  being an identifier that can name a parameter. Everything else is reported as
  \<open>Unmodelled\<close>, and the model says nothing about it: a substitution of any other
  expression, a backtick, a backslash, an unterminated substitution; a key that is not
  an identifier of letters, digits, underscore and dollar, or is a word the language
  reserves or treats specially (the parameter list need not compile); an identifier
  that is not a key (it is resolved in the enclosing scopes: the compiled
  function's \<^verbatim>\<open>vars\<close> and \<^verbatim>\<open>f\<close>, then the global object, and raises a ReferenceError
  only when none of them binds it).
\<close>

datatype js_error = TypeError string | ReferenceError string | Error string
  | Unmodelled string

datatype segment = Lit char | Subst string

definition js_identifier :: "string \<Rightarrow> bool" where
  "js_identifier x =
     (x \<noteq> [] \<and> list_all (\<lambda>c. ident_char c \<or> c = CHR ''$'') x
      \<and> \<not> (CHR ''0'' \<le> hd x \<and> hd x \<le> CHR ''9''))"

definition reserved_words :: "string list" where
  "reserved_words =
     [''arguments'', ''await'', ''break'', ''case'', ''catch'', ''class'', ''const'',
      ''continue'', ''debugger'', ''default'', ''delete'', ''do'', ''else'', ''enum'',
      ''eval'', ''export'', ''extends'', ''false'', ''finally'', ''for'', ''function'',
      ''if'', ''implements'', ''import'', ''in'', ''instanceof'', ''interface'', ''let'',
      ''new'', ''null'', ''package'', ''private'', ''protected'', ''public'', ''return'',
      ''static'', ''super'', ''switch'', ''this'', ''throw'', ''true'', ''try'', ''typeof'',
      ''var'', ''void'', ''while'', ''with'', ''yield'']"

definition parameter_name :: "string \<Rightarrow> bool" where
  "parameter_name x = (js_identifier x \<and> x \<notin> set reserved_words)"

function parse_template :: "string \<Rightarrow> segment list option" where
  "parse_template [] = Some []"
| "parse_template (c # cs) =
     (if c = CHR ''$'' \<and> take 1 cs = ''{'' then
        (if dropWhile (\<lambda>x. x \<noteq> CHR ''}'') (tl cs) = []
            \<or> \<not> js_identifier (takeWhile (\<lambda>x. x \<noteq> CHR ''}'') (tl cs))
         then None
         else map_option ((#) (Subst (takeWhile (\<lambda>x. x \<noteq> CHR ''}'') (tl cs))))
                (parse_template (tl (dropWhile (\<lambda>x. x \<noteq> CHR ''}'') (tl cs)))))
      else if c = CHR 0x60 \<or> c = CHR 0x5C then None
      else map_option ((#) (Lit c)) (parse_template cs))"
  by pat_completeness auto
termination
proof (relation "measure length")
  show "wf (measure length)" by simp
next
  fix c :: char and cs :: string
  have "length (dropWhile (\<lambda>x. x \<noteq> CHR ''}'') (tl cs)) \<le> length (tl cs)"
    by (rule length_dropWhile_le)
  then show "(tl (dropWhile (\<lambda>x. x \<noteq> CHR ''}'') (tl cs)), c # cs) \<in> measure length"
    by simp
next
  fix c :: char and cs :: string
  show "(cs, c # cs) \<in> measure length" by simp
qed

fun eval_segments :: "segment list \<Rightarrow> jsobj \<Rightarrow> js_error + string" where
  "eval_segments [] vars = Inr []"
| "eval_segments (Lit c # segs) vars =
     (case eval_segments segs vars of Inl e \<Rightarrow> Inl e | Inr s \<Rightarrow> Inr (c # s))"
| "eval_segments (Subst x # segs) vars =
     (case map_of vars x of
        None \<Rightarrow> Inl (Unmodelled x)
      | Some v \<Rightarrow>
          (case eval_segments segs vars of
             Inl e \<Rightarrow> Inl e
           | Inr s \<Rightarrow> Inr (to_string v @ s)))"

definition template :: "string \<Rightarrow> jsobj \<Rightarrow> js_error + string" where
  "template t vars =
     (if \<not> list_all (\<lambda>kv. parameter_name (fst kv)) vars then
        Inl (Unmodelled (join '', '' (map fst vars)))
      else case parse_template t of
        None \<Rightarrow> Inl (Unmodelled t)
      | Some segs \<Rightarrow> eval_segments segs vars)"

section \<open>The component registry and the target's components\<close>

text \<open>\<^verbatim>\<open>component_defs\<close> of oopsy.shared.js, entry by entry.\<close>

definition defs_Switch :: jsobj where
  "defs_Switch =
     [(''typename'', JStr ''daisy::Switch''),
      (''pin'', JStr ''a''),
      (''type'', JStr ''daisy::Switch::TYPE_MOMENTARY''),
      (''polarity'', JStr ''daisy::Switch::POLARITY_INVERTED''),
      (''pull'', JStr ''daisy::Switch::PULL_UP''),
      (''process'', JStr ''${name}.Debounce();''),
      (''updaterate'', JStr ''${name}.SetUpdateRate(seed.AudioCallbackRate());''),
      (''mapping'', JArr
         [JObj [(''name'', JStr ''${name}''),
           (''get'', JStr ''(hardware.${name}.Pressed()?1.f:0.f)''),
           (''range'', JArr [JNum 0, JNum 1])],
          JObj [(''name'', JStr ''${name}_rise''),
           (''get'', JStr ''(hardware.${name}.RisingEdge()?1.f:0.f)''),
           (''range'', JArr [JNum 0, JNum 1])],
          JObj [(''name'', JStr ''${name}_fall''),
           (''get'', JStr ''(hardware.${name}.FallingEdge()?1.f:0.f)''),
           (''range'', JArr [JNum 0, JNum 1])],
          JObj [(''name'', JStr ''${name}_seconds''),
           (''get'', JStr ''(hardware.${name}.TimeHeldMs()*0.001f)''),
           (''range'', JNull)]])]"

definition defs_Switch3 :: jsobj where
  "defs_Switch3 =
     [(''typename'', JStr ''daisy::Switch3''),
      (''pin'', JStr ''a,b''),
      (''mapping'', JArr
         [JObj [(''name'', JStr ''${name}''),
           (''get'', JStr ''(hardware.${name}.Read()*0.5f+0.5f)''),
           (''range'', JArr [JNum 0, JNum 2])]])]"

definition defs_Encoder :: jsobj where
  "defs_Encoder =
     [(''typename'', JStr ''daisy::Encoder''),
      (''pin'', JStr ''a,b,click''),
      (''process'', JStr ''${name}.Debounce();''),
      (''updaterate'', JStr ''${name}.SetUpdateRate(seed.AudioCallbackRate());''),
      (''mapping'', JArr
         [JObj [(''name'', JStr ''${name}''),
           (''get'', JStr ''(hardware.${name}.Increment()*0.5f+0.5f)''),
           (''range'', JArr [JNum (-1), JNum 1])],
          JObj [(''name'', JStr ''${name}_press''),
           (''get'', JStr ''(hardware.${name}.Pressed()?1.f:0.f)''),
           (''range'', JArr [JNum 0, JNum 1])],
          JObj [(''name'', JStr ''${name}_rise''),
           (''get'', JStr ''(hardware.${name}.RisingEdge()?1.f:0.f)''),
           (''range'', JArr [JNum 0, JNum 1])],
          JObj [(''name'', JStr ''${name}_fall''),
           (''get'', JStr ''(hardware.${name}.FallingEdge()?1.f:0.f)''),
           (''range'', JArr [JNum 0, JNum 1])],
          JObj [(''name'', JStr ''${name}_seconds''),
           (''get'', JStr ''(hardware.${name}.TimeHeldMs()*0.001f)''),
           (''range'', JNull)]])]"

definition defs_GateIn :: jsobj where
  "defs_GateIn =
     [(''typename'', JStr ''daisy::GateIn''),
      (''pin'', JStr ''a''),
      (''mapping'', JArr
         [JObj [(''name'', JStr ''${name}''),
           (''get'', JStr ''(hardware.${name}.State()?1.f:0.f)''),
           (''range'', JArr [JNum 0, JNum 1])],
          JObj [(''name'', JStr ''${name}_trig''),
           (''get'', JStr ''(hardware.${name}.Trig()?1.f:0.f)''),
           (''range'', JArr [JNum 0, JNum 1])]])]"

definition defs_AnalogControl :: jsobj where
  "defs_AnalogControl =
     [(''typename'', JStr ''daisy::AnalogControl''),
      (''pin'', JStr ''a''),
      (''flip'', JBool False),
      (''invert'', JBool False),
      (''slew'', JStr ''1.0/seed.AudioCallbackRate()''),
      (''process'', JStr ''${name}.Process();''),
      (''updaterate'', JStr ''${name}.SetSampleRate(seed.AudioCallbackRate());''),
      (''mapping'', JArr
         [JObj [(''name'', JStr ''${name}''),
           (''get'', JStr ''(hardware.${name}.Value())''),
           (''range'', JArr [JNum 0, JNum 1])]])]"

definition defs_Led :: jsobj where
  "defs_Led =
     [(''typename'', JStr ''daisy::Led''),
      (''pin'', JStr ''a''),
      (''invert'', JBool True),
      (''postprocess'', JStr ''${name}.Update();''),
      (''mapping'', JArr
         [JObj [(''name'', JStr ''${name}''),
           (''set'', JStr ''hardware.${name}.Set($<name>);'')]])]"

definition defs_RgbLed :: jsobj where
  "defs_RgbLed =
     [(''typename'', JStr ''daisy::RgbLed''),
      (''pin'', JStr ''r,g,b''),
      (''invert'', JBool True),
      (''postprocess'', JStr ''${name}.Update();''),
      (''mapping'', JArr
         [JObj [(''name'', JStr ''${name}_red''),
           (''set'', JStr ''hardware.${name}.SetRed($<name>);'')],
          JObj [(''name'', JStr ''${name}_green''),
           (''set'', JStr ''hardware.${name}.SetGreen($<name>);'')],
          JObj [(''name'', JStr ''${name}_blue''),
           (''set'', JStr ''hardware.${name}.SetBlue($<name>);'')],
          JObj [(''name'', JStr ''${name}''),
           (''set'', JStr ''hardware.${name}.Set(clamp(-$<name>, 0.f, 1.f), 0.f, clamp($<name>, 0.f, 1.f));'')],
          JObj [(''name'', JStr ''${name}_white''),
           (''set'', JStr ''hardware.${name}.Set($<name>,$<name>,$<name>);'')]])]"

definition defs_GateOut :: jsobj where
  "defs_GateOut =
     [(''typename'', JStr ''daisy::dsy_gpio''),
      (''pin'', JStr ''a''),
      (''mode'', JStr ''DSY_GPIO_MODE_OUTPUT_PP''),
      (''pull'', JStr ''DSY_GPIO_NOPULL''),
      (''mapping'', JArr
         [JObj [(''name'', JStr ''${name}''),
           (''set'', JStr ''dsy_gpio_write(&hardware.${name}, $<name> } 0.f);'')]])]"

definition defs_CVOuts :: jsobj where
  "defs_CVOuts =
     [(''typename'', JStr ''daisy::DacHandle::Config''),
      (''pin'', JStr ''''),
      (''bitdepth'', JStr ''daisy::DacHandle::BitDepth::BITS_12''),
      (''buff_state'', JStr ''daisy::DacHandle::BufferState::ENABLED''),
      (''mode'', JStr ''daisy::DacHandle::Mode::POLLING''),
      (''channel'', JStr ''daisy::DacHandle::Channel::BOTH''),
      (''mapping'', JArr
         [JObj [(''name'', JStr ''${name}1''),
           (''set'', JStr ''hardware.seed.dac.WriteValue(daisy::DacHandle::Channel::ONE, $<name> * 4095);''),
           (''where'', JStr ''main'')],
          JObj [(''name'', JStr ''${name}2''),
           (''set'', JStr ''hardware.seed.dac.WriteValue(daisy::DacHandle::Channel::TWO, $<name> * 4095);''),
           (''where'', JStr ''main'')]])]"

definition component_defs :: "(string \<times> jsobj) list" where
  "component_defs =
     [(''Switch'', defs_Switch),
      (''Switch3'', defs_Switch3),
      (''Encoder'', defs_Encoder),
      (''GateIn'', defs_GateIn),
      (''AnalogControl'', defs_AnalogControl),
      (''Led'', defs_Led),
      (''RgbLed'', defs_RgbLed),
      (''GateOut'', defs_GateOut),
      (''CVOuts'', defs_CVOuts)]"

text \<open>
  generate_target_struct (oopsy.shared.js) fleshes out the target's components:
  \<^verbatim>\<open>
  let components = Object.entries(target.components)
  .sort((a, b) =>
      a[1].component < b[1].component ? -1 : a[1].component > b[1].component ? 1 : 0)
  .map((pair) => {
      let [name, def] = pair;
      def.name = name;
      let component = component_defs[def.component];
      if (component) {
      // copy component defaults into the def
      // TODO this should be recursive for object structures...
      for (let k of Object.keys(component)) {
          if (def[k] == undefined) def[k] = component[k];
      }
      } else {
      throw new Error("undefined component kind: " + def.component);
      }
      return def;
  });
  \<close>
  \<open>component_defs\<close> is a free identifier of the function. What it refers to depends
  on the scope the function is evaluated in, which the model takes as a parameter:
  a map from identifiers to the registry they are bound to. The kind of an instance is
  read as text (every instance of a descriptor names its kind with a string); the
  sort is stable. The registry is an object literal: a kind that is none of its
  entries but names a property of \<^verbatim>\<open>Object.prototype\<close> reads as the inherited value,
  which is truthy and has no keys of its own, so the definition is returned with no
  default copied and no error.
\<close>

type_synonym scope = "string \<rightharpoonup> (string \<times> jsobj) list"

definition lookup_identifier :: "scope \<Rightarrow> string \<Rightarrow> js_error + (string \<times> jsobj) list" where
  "lookup_identifier sc x =
     (case sc x of
        None \<Rightarrow> Inl (ReferenceError (x @ '' is not defined''))
      | Some v \<Rightarrow> Inr v)"

definition kind_of :: "jsobj \<Rightarrow> string" where
  "kind_of def = to_string (js_get def ''component'')"

text \<open>The loop that copies the defaults a definition leaves undefined.\<close>

fun copy_defaults :: "jsobj \<Rightarrow> jsobj \<Rightarrow> jsobj" where
  "copy_defaults def [] = def"
| "copy_defaults def ((k, v) # component) =
     copy_defaults (if js_is_undefined (js_get def k) then AList.update k v def else def)
       component"

definition flesh_out :: "scope \<Rightarrow> string \<times> jsobj \<Rightarrow> js_error + jsobj" where
  "flesh_out sc pair =
     (case pair of (name, def0) \<Rightarrow>
        (let def = AList.update ''name'' (JStr name) def0 in
         case lookup_identifier sc ''component_defs'' of
           Inl e \<Rightarrow> Inl e
         | Inr defs \<Rightarrow>
             (case map_of defs (kind_of def) of
                Some component \<Rightarrow> Inr (copy_defaults def component)
              | None \<Rightarrow>
                  if kind_of def \<in> set object_prototype_names then Inr def
                  else Inl (Error (''undefined component kind: '' @ kind_of def)))))"

text \<open>\<^verbatim>\<open>xs.map(f)\<close> where \<open>f\<close> may throw: the first exception ends the run.\<close>

fun map_throwing :: "('a \<Rightarrow> js_error + 'b) \<Rightarrow> 'a list \<Rightarrow> js_error + 'b list" where
  "map_throwing f [] = Inr []"
| "map_throwing f (x # xs) =
     (case f x of
        Inl e \<Rightarrow> Inl e
      | Inr y \<Rightarrow> (case map_throwing f xs of Inl e \<Rightarrow> Inl e | Inr ys \<Rightarrow> Inr (y # ys)))"

definition target_components :: "scope \<Rightarrow> (string \<times> jsobj) list \<Rightarrow> js_error + jsobj list" where
  "target_components sc components =
     map_throwing (flesh_out sc) (sort_key (\<lambda>pair. kind_of (snd pair)) components)"

text \<open>
  The module scope of oopsy.shared.js: the file declares \<^verbatim>\<open>path\<close>, \<^verbatim>\<open>os\<close>,
  \<^verbatim>\<open>execSync\<close> and \<^verbatim>\<open>fs\<close> and assigns one object literal to \<^verbatim>\<open>module.exports\<close>.
  \<^verbatim>\<open>component_defs\<close> is a property of that object, not a variable, and oopsy.js binds
  the name in its own module only (\<^verbatim>\<open>const { ..., component_defs, ... } = require(...)\<close>),
  so no registry is bound to the identifier where generate_target_struct runs.
  \<open>intended_scope\<close> is the scope in which the identifier names the registry.
\<close>

definition shared_module_scope :: scope where
  "shared_module_scope = Map.empty"

definition intended_scope :: scope where
  "intended_scope = [''component_defs'' \<mapsto> component_defs]"

section \<open>The node graph\<close>

text \<open>
  generate_app keeps every node in one object \<^verbatim>\<open>nodes\<close>, keyed by the node's name. The
  model keeps of a node the fields the graph passes read and write: \<^verbatim>\<open>to\<close> and
  \<^verbatim>\<open>from\<close> (\<open>None\<close> when the node has no such list), \<^verbatim>\<open>src\<close> (\<open>None\<close> for
  \<open>undefined\<close> or \<open>null\<close>) and the truth value of \<^verbatim>\<open>automap\<close>.
\<close>

record gnode =
  nd_to :: "string list option"
  nd_from :: "string list option"
  nd_src :: "string option"
  nd_automap :: bool

type_synonym nodes = "string \<rightharpoonup> gnode"

text \<open>A name that may be undefined, used as a condition: the empty string is falsy.\<close>

definition truthy :: "string option \<Rightarrow> bool" where
  "truthy x = (case x of None \<Rightarrow> False | Some s \<Rightarrow> s \<noteq> [])"

text \<open>\<^verbatim>\<open>xs[i]\<close>: reading past the end of an array gives \<open>undefined\<close>.\<close>

definition at_index :: "'a list \<Rightarrow> nat \<Rightarrow> 'a option" where
  "at_index xs i = (if i < length xs then Some (xs ! i) else None)"

subsection \<open>The automap fill-pass\<close>

text \<open>
  \<^verbatim>\<open>
  let upi=0; // unused param index
  let param = rnbo.params[upi];
  Object.keys(hardware.inputs).forEach(name => {
      const node = nodes[name];
      if (node.to.length == 0 && node.automap) {
          // find next param without a src:
          while (param && !!nodes[param].src) param = rnbo.params[++upi];
          if (param) {
              nodes[param].src = name;
              node.to.push(param);
          }
      }
  })
  \<close>
  \<open>param\<close> is \<open>rnbo.params[upi]\<close> throughout, so the state of the loop is the node
  store and \<open>upi\<close>. Reading a field of a node that is not in the store is a TypeError.
\<close>

function next_free_param :: "nodes \<Rightarrow> string list \<Rightarrow> nat \<Rightarrow> js_error + nat" where
  "next_free_param nodes params upi =
     (if truthy (at_index params upi) then
        (case nodes (params ! upi) of
           None \<Rightarrow> Inl (TypeError ''Cannot read properties of undefined (reading src)'')
         | Some pn \<Rightarrow>
             if truthy (nd_src pn) then next_free_param nodes params (Suc upi)
             else Inr upi)
      else Inr upi)"
  by pat_completeness auto
termination
  by (relation "measure (\<lambda>(nodes, params, upi). length params - upi)")
     (auto simp: truthy_def at_index_def split: if_splits)

definition fill_step :: "string list \<Rightarrow> nodes \<times> nat \<Rightarrow> string \<Rightarrow> js_error + nodes \<times> nat" where
  "fill_step params st name =
     (case st of (nodes, upi) \<Rightarrow>
        (case nodes name of
           None \<Rightarrow> Inl (TypeError ''Cannot read properties of undefined (reading to)'')
         | Some node \<Rightarrow>
             (case nd_to node of
                None \<Rightarrow> Inl (TypeError ''Cannot read properties of undefined (reading length)'')
              | Some to \<Rightarrow>
                  if length to = 0 \<and> nd_automap node then
                    (case next_free_param nodes params upi of
                       Inl e \<Rightarrow> Inl e
                     | Inr upi' \<Rightarrow>
                         if truthy (at_index params upi') then
                           (let param = params ! upi' in
                            case nodes param of
                              None \<Rightarrow> Inl (TypeError ''Cannot set properties of undefined (setting src)'')
                            | Some pn \<Rightarrow>
                                (let nodes1 = nodes(param \<mapsto> pn\<lparr>nd_src := Some name\<rparr>);
                                     node1 = (if param = name then pn\<lparr>nd_src := Some name\<rparr>
                                              else node)
                                 in Inr (nodes1(name \<mapsto> node1\<lparr>nd_to := Some (to @ [param])\<rparr>),
                                         upi')))
                         else Inr (nodes, upi'))
                  else Inr (nodes, upi))))"

fun fill_loop :: "string list \<Rightarrow> nodes \<times> nat \<Rightarrow> string list \<Rightarrow> js_error + nodes \<times> nat" where
  "fill_loop params st [] = Inr st"
| "fill_loop params st (name # names) =
     (case fill_step params st name of
        Inl e \<Rightarrow> Inl e
      | Inr st' \<Rightarrow> fill_loop params st' names)"

text \<open>
  \<open>inputs\<close> is \<^verbatim>\<open>Object.keys(hardware.inputs)\<close> in its iteration order, \<open>params\<close> is
  \<^verbatim>\<open>rnbo.params\<close>, the varnames of the parameters in declaration order.
\<close>

definition fill_pass :: "nodes \<Rightarrow> string list \<Rightarrow> string list \<Rightarrow> js_error + nodes" where
  "fill_pass nodes inputs params =
     (case fill_loop params (nodes, 0) inputs of
        Inl e \<Rightarrow> Inl e
      | Inr (nodes', upi) \<Rightarrow> Inr nodes')"

text \<open>
  An input the pass may use: its \<open>to\<close> list is empty and it is flagged automap.
  A parameter the pass may take: it has no (truthy) \<open>src\<close>.
\<close>

definition automappable :: "nodes \<Rightarrow> string \<Rightarrow> bool" where
  "automappable nodes name =
     (case nodes name of None \<Rightarrow> False | Some n \<Rightarrow> nd_to n = Some [] \<and> nd_automap n)"

definition unmapped :: "nodes \<Rightarrow> string \<Rightarrow> bool" where
  "unmapped nodes p = (case nodes p of None \<Rightarrow> False | Some n \<Rightarrow> \<not> truthy (nd_src n))"

text \<open>The edge from input \<open>name\<close> to parameter \<open>param\<close>, written into the store.\<close>

definition connect :: "nodes \<Rightarrow> string \<times> string \<Rightarrow> nodes" where
  "connect nodes e =
     (case e of (name, param) \<Rightarrow>
        (case (nodes name, nodes param) of
           (Some n, Some pn) \<Rightarrow>
             nodes(param \<mapsto> pn\<lparr>nd_src := Some name\<rparr>,
                   name \<mapsto> n\<lparr>nd_to := Some (case nd_to n of None \<Rightarrow> [param]
                                                | Some to \<Rightarrow> to @ [param])\<rparr>)
         | _ \<Rightarrow> nodes))"

text \<open>
  The store a graph pass starts from is well formed for the fill-pass when the input
  names and the parameter names are non-empty, pairwise distinct and disjoint, every
  input has a node with a \<open>to\<close> list and every parameter has a node (generate_daisy
  and the parameter stage create them so).
\<close>

definition fill_ready :: "nodes \<Rightarrow> string list \<Rightarrow> string list \<Rightarrow> bool" where
  "fill_ready nodes inputs params =
     (distinct inputs \<and> distinct params \<and> list_all (\<lambda>a. a \<notin> set params) inputs
      \<and> list_all (\<lambda>a. a \<noteq> [] \<and> (case nodes a of None \<Rightarrow> False | Some n \<Rightarrow> nd_to n \<noteq> None)) inputs
      \<and> list_all (\<lambda>p. p \<noteq> [] \<and> nodes p \<noteq> None) params)"

text \<open>
  The inputs and parameters the pass can pair, in table order and in declaration
  order, and the pairs taken position by position.
\<close>

definition free_inputs :: "nodes \<Rightarrow> string list \<Rightarrow> string list" where
  "free_inputs nodes inputs = filter (automappable nodes) inputs"

definition free_params :: "nodes \<Rightarrow> string list \<Rightarrow> string list" where
  "free_params nodes params = filter (unmapped nodes) params"

definition new_edges :: "nodes \<Rightarrow> string list \<Rightarrow> string list \<Rightarrow> (string \<times> string) list" where
  "new_edges nodes inputs params = zip (free_inputs nodes inputs) (free_params nodes params)"

subsection \<open>Audio-output fan-in\<close>

text \<open>
  \<^verbatim>\<open>
  let available = []
  daisy.audio_outs.forEach((name, i)=>{
      const node = nodes[name];
      // does this output have an audio source?
      if (node.src) {
          available.push(name);
      } else if (available.length) {
          node.src = available[i % available.length];
      }
  });
  \<close>
  The state of the loop is the store, \<open>available\<close> and the index \<open>i\<close>.
\<close>

fun fan_in_loop :: "nodes \<Rightarrow> string list \<Rightarrow> nat \<Rightarrow> string list \<Rightarrow> js_error + nodes" where
  "fan_in_loop nodes available i [] = Inr nodes"
| "fan_in_loop nodes available i (name # names) =
     (case nodes name of
        None \<Rightarrow> Inl (TypeError ''Cannot read properties of undefined (reading src)'')
      | Some node \<Rightarrow>
          if truthy (nd_src node) then fan_in_loop nodes (available @ [name]) (Suc i) names
          else if length available \<noteq> 0 then
            fan_in_loop
              (nodes(name \<mapsto> node\<lparr>nd_src := Some (available ! (i mod length available))\<rparr>))
              available (Suc i) names
          else fan_in_loop nodes available (Suc i) names)"

definition normal_audio_outs :: "nodes \<Rightarrow> string list \<Rightarrow> js_error + nodes" where
  "normal_audio_outs nodes audio_outs = fan_in_loop nodes [] 0 audio_outs"

text \<open>
  An output that has an audio source, and the outputs before position \<open>i\<close> that had
  one when the pass started.
\<close>

definition has_src :: "nodes \<Rightarrow> string \<Rightarrow> bool" where
  "has_src nodes name = (case nodes name of None \<Rightarrow> False | Some n \<Rightarrow> truthy (nd_src n))"

definition assigned_before :: "nodes \<Rightarrow> string list \<Rightarrow> nat \<Rightarrow> string list" where
  "assigned_before nodes audio_outs i = filter (has_src nodes) (take i audio_outs)"

text \<open>
  A store as the fill-pass may find it: four knobs flagged automap and a switch that
  is not; \<open>knob2\<close> already drives parameter \<open>a\<close> through a label match.
\<close>

definition example_graph :: nodes where
  "example_graph =
     [''knob1'' \<mapsto> \<lparr>nd_to = Some [], nd_from = None, nd_src = None, nd_automap = True\<rparr>,
      ''sw1'' \<mapsto> \<lparr>nd_to = Some [], nd_from = None, nd_src = None, nd_automap = False\<rparr>,
      ''knob2'' \<mapsto> \<lparr>nd_to = Some [''rnbo_param_a_0''], nd_from = None, nd_src = None,
                    nd_automap = True\<rparr>,
      ''knob3'' \<mapsto> \<lparr>nd_to = Some [], nd_from = None, nd_src = None, nd_automap = True\<rparr>,
      ''knob4'' \<mapsto> \<lparr>nd_to = Some [], nd_from = None, nd_src = None, nd_automap = True\<rparr>,
      ''rnbo_param_a_0'' \<mapsto> \<lparr>nd_to = None, nd_from = None, nd_src = Some ''knob2'',
                             nd_automap = False\<rparr>,
      ''rnbo_param_b_1'' \<mapsto> \<lparr>nd_to = None, nd_from = None, nd_src = None,
                             nd_automap = False\<rparr>,
      ''rnbo_param_c_2'' \<mapsto> \<lparr>nd_to = None, nd_from = None, nd_src = None,
                             nd_automap = False\<rparr>]"

definition example_inputs :: "string list" where
  "example_inputs = [''knob1'', ''sw1'', ''knob2'', ''knob3'', ''knob4'']"

definition example_params :: "string list" where
  "example_params = [''rnbo_param_a_0'', ''rnbo_param_b_1'', ''rnbo_param_c_2'']"

text \<open>
  Two stores as the fan-in pass may find them. In the first, the first patch outlet
  was routed to a hardware output \<open>cv1\<close> through raw output \<open>dsy_out1\<close>, which
  therefore has no \<open>src\<close>, and the second outlet is plain audio on \<open>dsy_out2\<close>
  (generate_app sets \<^verbatim>\<open>nodes[src].src = src\<close> for plain audio). In the second, one
  patch outlet is plain audio on the first of three raw outputs.
\<close>

definition routed_first_graph :: nodes where
  "routed_first_graph =
     [''dsy_out1'' \<mapsto> \<lparr>nd_to = Some [''cv1''], nd_from = None, nd_src = None,
                       nd_automap = False\<rparr>,
      ''dsy_out2'' \<mapsto> \<lparr>nd_to = Some [], nd_from = None, nd_src = Some ''dsy_out2'',
                       nd_automap = False\<rparr>]"

definition mono_graph :: nodes where
  "mono_graph =
     [''dsy_out1'' \<mapsto> \<lparr>nd_to = Some [], nd_from = None, nd_src = Some ''dsy_out1'',
                       nd_automap = False\<rparr>,
      ''dsy_out2'' \<mapsto> \<lparr>nd_to = Some [], nd_from = None, nd_src = None, nd_automap = False\<rparr>,
      ''dsy_out3'' \<mapsto> \<lparr>nd_to = Some [], nd_from = None, nd_src = None, nd_automap = False\<rparr>]"

section \<open>Registering the components' mappings (run)\<close>

text \<open>
  \<^verbatim>\<open>
  for (let component of hardware.components) {
      // meta-elements are handled separately
      if (component.meta) {
      } else {
          // else it is available for mapping:
          for (let mapping of component.mapping) {
              let name = template(mapping.name, component);
              if (mapping.get) {
                  // an input
                  hardware.inputs[name] = {
                      code: template(mapping.get, component),
                      automap: component.automap && name == component.name,
                      range: mapping.range,
                      where: mapping.where
                  }
                  hardware.labels.params[name] = name
              }
              if (mapping.set) {
                  // an output
                  hardware.outputs[name] = {
                      code: template(mapping.set, component),
                      automap: component.automap && name == component.name,
                      range: mapping.range,
                      where: mapping.where || "audio"
                  }
                  hardware.labels.outs[name] = name
              }
          }
      }
  }
  \<close>
  The state of the loops is the four tables. \<^verbatim>\<open>component.name\<close> is the string
  generate_target_struct stored (\<^verbatim>\<open>def.name = name\<close>), so \<^verbatim>\<open>name == component.name\<close>
  compares two strings; a component or mapping that is not an object, or a name that
  is not a string, is outside the model.
\<close>

record io_entry =
  e_code :: string
  e_automap :: jsval
  e_range :: jsval
  e_where :: jsval

record hardware_tables =
  hw_inputs :: "(string \<times> io_entry) list"
  hw_outputs :: "(string \<times> io_entry) list"
  hw_labels_params :: label_table
  hw_labels_outs :: label_table

definition register_input ::
  "jsobj \<Rightarrow> jsobj \<Rightarrow> string \<Rightarrow> hardware_tables \<Rightarrow> js_error + hardware_tables" where
  "register_input component mapping name hw =
     (if js_truthy (js_get mapping ''get'') then
        (case template (to_string (js_get mapping ''get'')) component of
           Inl e \<Rightarrow> Inl e
         | Inr code \<Rightarrow>
             Inr (hw\<lparr>hw_inputs :=
                       AList.update name
                         \<lparr>e_code = code,
                          e_automap = js_and (js_get component ''automap'')
                                        (JBool (JStr name = js_get component ''name'')),
                          e_range = js_get mapping ''range'',
                          e_where = js_get mapping ''where''\<rparr>
                         (hw_inputs hw),
                     hw_labels_params := AList.update name name (hw_labels_params hw)\<rparr>))
      else Inr hw)"

definition register_output ::
  "jsobj \<Rightarrow> jsobj \<Rightarrow> string \<Rightarrow> hardware_tables \<Rightarrow> js_error + hardware_tables" where
  "register_output component mapping name hw =
     (if js_truthy (js_get mapping ''set'') then
        (case template (to_string (js_get mapping ''set'')) component of
           Inl e \<Rightarrow> Inl e
         | Inr code \<Rightarrow>
             Inr (hw\<lparr>hw_outputs :=
                       AList.update name
                         \<lparr>e_code = code,
                          e_automap = js_and (js_get component ''automap'')
                                        (JBool (JStr name = js_get component ''name'')),
                          e_range = js_get mapping ''range'',
                          e_where = js_or (js_get mapping ''where'') (JStr ''audio'')\<rparr>
                         (hw_outputs hw),
                     hw_labels_outs := AList.update name name (hw_labels_outs hw)\<rparr>))
      else Inr hw)"

definition register_mapping ::
  "jsobj \<Rightarrow> hardware_tables \<Rightarrow> jsval \<Rightarrow> js_error + hardware_tables" where
  "register_mapping component hw m =
     (case m of
        JObj mapping \<Rightarrow>
          (case js_get component ''name'' of
             JStr cname \<Rightarrow>
               (case template (to_string (js_get mapping ''name'')) component of
                  Inl e \<Rightarrow> Inl e
                | Inr name \<Rightarrow>
                    (case register_input component mapping name hw of
                       Inl e \<Rightarrow> Inl e
                     | Inr hw1 \<Rightarrow> register_output component mapping name hw1))
           | _ \<Rightarrow> Inl (Unmodelled ''component.name is not a string''))
      | _ \<Rightarrow> Inl (Unmodelled ''a mapping is not an object''))"

text \<open>A \<^verbatim>\<open>for ... of\<close> loop whose body may throw, threading the state.\<close>

fun for_of ::
  "('s \<Rightarrow> 'a \<Rightarrow> js_error + 's) \<Rightarrow> 's \<Rightarrow> 'a list \<Rightarrow> js_error + 's" where
  "for_of body st [] = Inr st"
| "for_of body st (x # xs) =
     (case body st x of Inl e \<Rightarrow> Inl e | Inr st' \<Rightarrow> for_of body st' xs)"

definition register_component ::
  "hardware_tables \<Rightarrow> jsobj \<Rightarrow> js_error + hardware_tables" where
  "register_component hw component =
     (if js_truthy (js_get component ''meta'') then Inr hw
      else (case js_get component ''mapping'' of
              JArr mappings \<Rightarrow> for_of (register_mapping component) hw mappings
            | _ \<Rightarrow> Inl (TypeError ''component.mapping is not iterable'')))"

definition register_components ::
  "jsobj list \<Rightarrow> hardware_tables \<Rightarrow> js_error + hardware_tables" where
  "register_components components hw = for_of register_component hw components"

text \<open>
  A component of \<open>components\<close> that is not a meta-element, declares automap and bears
  the name \<open>k\<close>.
\<close>

definition automap_instance :: "jsobj list \<Rightarrow> string \<Rightarrow> bool" where
  "automap_instance components k =
     list_ex (\<lambda>c. \<not> js_truthy (js_get c ''meta'') \<and> js_truthy (js_get c ''automap'')
                  \<and> js_get c ''name'' = JStr k) components"

text \<open>
  generate_daisy makes a node of every entry of the input table:
  \<^verbatim>\<open>nodes[name] = Object.assign({ name: name, to: [] }, hardware.inputs[v])\<close>.
\<close>

definition input_node :: "io_entry \<Rightarrow> gnode" where
  "input_node e =
     \<lparr>nd_to = Some [], nd_from = None, nd_src = None, nd_automap = js_truthy (e_automap e)\<rparr>"

definition empty_tables :: hardware_tables where
  "empty_tables =
     \<lparr>hw_inputs = [], hw_outputs = [], hw_labels_params = [], hw_labels_outs = []\<rparr>"

text \<open>
  The invariant of the registration loops: an entry of the input table that was not in
  the table before the loops and whose automap flag is truthy is stored under the
  name of a non-meta component that declares automap.
\<close>

definition inputs_ok :: "jsobj list \<Rightarrow> hardware_tables \<Rightarrow> hardware_tables \<Rightarrow> bool" where
  "inputs_ok comps hw0 hw =
     (\<forall>(k, e) \<in> set (hw_inputs hw).
        (k, e) \<in> set (hw_inputs hw0) \<or> (js_truthy (e_automap e) \<longrightarrow> automap_instance comps k))"

text \<open>
  Two fleshed-out components: a switch \<open>sw1\<close> and a knob \<open>knob1\<close>, both declared
  with \<^verbatim>\<open>automap: true\<close> in the target descriptor.
\<close>

definition example_components :: "jsobj list" where
  "example_components =
     [copy_defaults [(''component'', JStr ''AnalogControl''), (''automap'', JBool True),
                     (''name'', JStr ''knob1'')] defs_AnalogControl,
      copy_defaults [(''component'', JStr ''Switch''), (''automap'', JBool True),
                     (''name'', JStr ''sw1'')] defs_Switch]"

section \<open>Building the graph: the hardware nodes and the patch outlets\<close>

text \<open>
  generate_daisy puts a node into the store for every entry of the input table
  (\<open>input_node\<close>), for every data handler
  (\<^verbatim>\<open>Object.assign({ name: name, data: null }, hardware.datahandlers[name])\<close>), for
  every entry of the output table (\<^verbatim>\<open>{ name: name, config: ..., from: [] }\<close>), for
  the raw audio inputs and outputs \<^verbatim>\<open>dsy_in1..\<close>, \<^verbatim>\<open>dsy_out1..\<close>
  (\<^verbatim>\<open>{ name: name, to: [] }\<close>, \<^verbatim>\<open>OOPSY_IO_COUNT\<close> of each) and for the MIDI ports the
  target declares, in this order; a later node replaces an earlier one of the same
  name. It returns the lists of names.
\<close>

record daisy =
  daisy_device_inputs :: "string list"
  daisy_datahandlers :: "string list"
  daisy_device_outs :: "string list"
  daisy_audio_ins :: "string list"
  daisy_audio_outs :: "string list"
  daisy_midi_ins :: "string list"
  daisy_midi_outs :: "string list"

definition bare_node :: gnode where
  "bare_node = \<lparr>nd_to = None, nd_from = None, nd_src = None, nd_automap = False\<rparr>"

definition source_node :: gnode where
  "source_node = bare_node\<lparr>nd_to := Some []\<rparr>"

definition sink_node :: gnode where
  "sink_node = bare_node\<lparr>nd_from := Some []\<rparr>"

definition numbered :: "string \<Rightarrow> nat \<Rightarrow> string list" where
  "numbered prefix n = map (\<lambda>i. prefix @ nat_text (i + 1)) [0..<n]"

definition put_all :: "nodes \<Rightarrow> (string \<times> gnode) list \<Rightarrow> nodes" where
  "put_all nodes kvs = foldl (\<lambda>ns (k, v). ns(k \<mapsto> v)) nodes kvs"

definition generate_daisy ::
  "hardware_tables \<Rightarrow> string list \<Rightarrow> nat \<Rightarrow> bool \<Rightarrow> bool \<Rightarrow> nodes \<Rightarrow> daisy \<times> nodes" where
  "generate_daisy hw handlers io_count has_midi_input has_midi_output nodes =
     (let ins = numbered ''dsy_in'' io_count;
          outs = numbered ''dsy_out'' io_count;
          midi_i = (if has_midi_input then [''dsy_midi_in''] else []);
          midi_o = (if has_midi_output then [''dsy_midi_out''] else []);
          nodes1 = put_all nodes (map (\<lambda>(name, e). (name, input_node e)) (hw_inputs hw));
          nodes2 = put_all nodes1 (map (\<lambda>name. (name, bare_node)) handlers);
          nodes3 = put_all nodes2 (map (\<lambda>(name, e). (name, sink_node)) (hw_outputs hw));
          nodes4 = put_all nodes3 (map (\<lambda>name. (name, source_node)) ins);
          nodes5 = put_all nodes4 (map (\<lambda>name. (name, source_node)) outs);
          nodes6 = put_all nodes5 (map (\<lambda>name. (name, source_node)) midi_i);
          nodes7 = put_all nodes6 (map (\<lambda>name. (name, sink_node)) midi_o)
      in (\<lparr>daisy_device_inputs = map fst (hw_inputs hw), daisy_datahandlers = handlers,
            daisy_device_outs = map fst (hw_outputs hw), daisy_audio_ins = ins,
            daisy_audio_outs = outs, daisy_midi_ins = midi_i, daisy_midi_outs = midi_o\<rparr>,
          nodes7))"

text \<open>
  The patch outlets:
  \<^verbatim>\<open>
  rnbo.audio_outs = app.patch.outs.map((s, i)=>{
      let name = "rnbo_out"+(i+1)
      let label = s.replace(/"/g, "").trim();
      let src = daisy.audio_outs[i];
      if (!src) {
          // create a glue node buffer for this:
          src = `glue_out${i+1}`
          nodes[src] = { to: [], }
          app.audio_outs.push(src);
      }
      let node = { name: name, src: src, }
      nodes[name] = node
      // search for a matching [out] name / prefix:
      (the search above, giving map and maplabel)
      if (map) {
          label = maplabel
      } else {
          // else it is audio data
          nodes[src].src = src;
      }
      nodes[name].label = label
      // was this out mapped to something?
      if (map) {
          nodes[map].from.push(src);
          nodes[src].to.push(map)
      }
      return name;
  })
  \<close>
  The state is the store and \<^verbatim>\<open>app.audio_outs\<close>. \<open>trim\<close> removes the ASCII white
  space at both ends.
\<close>

definition white_space :: "char \<Rightarrow> bool" where
  "white_space c = (c = CHR '' '' \<or> c = CHR 0x09 \<or> c = CHR 0x0A \<or> c = CHR 0x0B
                    \<or> c = CHR 0x0C \<or> c = CHR 0x0D)"

definition trim :: "string \<Rightarrow> string" where
  "trim s = rev (dropWhile white_space (rev (dropWhile white_space s)))"

definition outlet_label :: "string \<Rightarrow> string" where
  "outlet_label s = trim (filter (\<lambda>c. c \<noteq> CHR 0x22) s)"

definition push_from :: "nodes \<Rightarrow> string \<Rightarrow> string \<Rightarrow> js_error + nodes" where
  "push_from nodes m src =
     (case nodes m of
        None \<Rightarrow> Inl (TypeError ''Cannot read properties of undefined (reading from)'')
      | Some mn \<Rightarrow>
          (case nd_from mn of
             None \<Rightarrow> Inl (TypeError ''Cannot read properties of undefined (reading push)'')
           | Some fr \<Rightarrow> Inr (nodes(m \<mapsto> mn\<lparr>nd_from := Some (fr @ [src])\<rparr>))))"

definition push_to :: "nodes \<Rightarrow> string \<Rightarrow> string \<Rightarrow> js_error + nodes" where
  "push_to nodes src m =
     (case nodes src of
        None \<Rightarrow> Inl (TypeError ''Cannot read properties of undefined (reading to)'')
      | Some sn \<Rightarrow>
          (case nd_to sn of
             None \<Rightarrow> Inl (TypeError ''Cannot read properties of undefined (reading push)'')
           | Some t \<Rightarrow> Inr (nodes(src \<mapsto> sn\<lparr>nd_to := Some (t @ [m])\<rparr>))))"

definition rnbo_audio_out ::
  "label_table \<Rightarrow> string list \<Rightarrow> nodes \<times> string list \<Rightarrow> nat \<times> string
     \<Rightarrow> js_error + nodes \<times> string list" where
  "rnbo_audio_out outs raw_outs st is =
     (case (st, is) of ((nodes, app_audio_outs), (i, s)) \<Rightarrow>
        (let name = ''rnbo_out'' @ nat_text (i + 1);
             label = outlet_label s;
             free = truthy (at_index raw_outs i);
             src = (if free then raw_outs ! i else ''glue_out'' @ nat_text (i + 1));
             nodes1 = (if free then nodes else nodes(src \<mapsto> source_node));
             app_audio_outs1 = (if free then app_audio_outs else app_audio_outs @ [src]);
             nodes2 = nodes1(name \<mapsto> bare_node\<lparr>nd_src := Some src\<rparr>);
             found = fst (out_search outs label)
         in if truthy found then
              (case push_from nodes2 (the found) src of
                 Inl e \<Rightarrow> Inl e
               | Inr nodes3 \<Rightarrow>
                   (case push_to nodes3 src (the found) of
                      Inl e \<Rightarrow> Inl e
                    | Inr nodes4 \<Rightarrow> Inr (nodes4, app_audio_outs1)))
            else
              (case nodes2 src of
                 None \<Rightarrow> Inl (TypeError ''Cannot set properties of undefined (setting src)'')
               | Some sn \<Rightarrow> Inr (nodes2(src \<mapsto> sn\<lparr>nd_src := Some src\<rparr>), app_audio_outs1))))"

definition rnbo_audio_outs ::
  "label_table \<Rightarrow> string list \<Rightarrow> nodes \<Rightarrow> string list \<Rightarrow> js_error + nodes \<times> string list" where
  "rnbo_audio_outs outs raw_outs nodes patch_outs =
     for_of (rnbo_audio_out outs raw_outs) (nodes, [])
       (zip [0..<length patch_outs] patch_outs)"

text \<open>
  The end of a step of \<^verbatim>\<open>rnbo.params = app.patch.params.map(...)\<close>, after the node
  is built:
  \<^verbatim>\<open>
  nodes[varname] = node;
  if (src && nodes[src]) {
      nodes[src].to.push(varname)
  }
  return varname;
  \<close>
  The state is the store and the varnames returned so far.
\<close>

definition rnbo_param_step ::
  "(real \<Rightarrow> real) \<Rightarrow> label_table \<Rightarrow> nodes \<times> string list \<Rightarrow> patch_param
     \<Rightarrow> js_error + nodes \<times> string list" where
  "rnbo_param_step math_log2 params st param =
     (case st of (nodes, varnames) \<Rightarrow>
        (let node = rnbo_param math_log2 params param;
             varname = node_varname node;
             nodes1 = nodes(varname \<mapsto> bare_node\<lparr>nd_src := node_src node\<rparr>)
         in if truthy (node_src node) \<and> nodes1 (the (node_src node)) \<noteq> None then
              (case push_to nodes1 (the (node_src node)) varname of
                 Inl e \<Rightarrow> Inl e
               | Inr nodes2 \<Rightarrow> Inr (nodes2, varnames @ [varname]))
            else Inr (nodes1, varnames @ [varname])))"

definition rnbo_params ::
  "(real \<Rightarrow> real) \<Rightarrow> label_table \<Rightarrow> nodes \<Rightarrow> patch_param list
     \<Rightarrow> js_error + nodes \<times> string list" where
  "rnbo_params math_log2 params nodes patch_params =
     for_of (rnbo_param_step math_log2 params) (nodes, []) patch_params"

text \<open>
  A target with the two example components, and a patch with three parameters, the
  first of which is labelled for the switch: the graph after the fill-pass.
\<close>

definition knob_patch_params :: "patch_param list" where
  "knob_patch_params =
     [\<lparr>param_name = ''sw1_mute'', param_cindex = 0, param_default = Some 0,
       param_min = Some 0, param_max = Some 1\<rparr>,
      \<lparr>param_name = ''cutoff'', param_cindex = 1, param_default = Some 440,
       param_min = Some 20, param_max = Some 20000\<rparr>,
      \<lparr>param_name = ''resonance'', param_cindex = 2, param_default = None,
       param_min = None, param_max = None\<rparr>]"

definition knob_patch_graph :: "js_error + nodes" where
  "knob_patch_graph =
     (case register_components example_components empty_tables of
        Inl e \<Rightarrow> Inl e
      | Inr hw \<Rightarrow>
          (case generate_daisy hw [] 2 False False Map.empty of
             (dsy, nodes) \<Rightarrow>
               (case rnbo_params exact_log2 (hw_labels_params hw) nodes knob_patch_params of
                  Inl e \<Rightarrow> Inl e
                | Inr (nodes1, varnames) \<Rightarrow>
                    fill_pass nodes1 (daisy_device_inputs dsy) varnames)))"

text \<open>
  A target with one hardware output \<open>cv1\<close> and two raw audio channels, and a patch
  whose first outlet is labelled for \<open>cv1\<close> and whose second is plain audio: the
  store before the graph passes.
\<close>

definition cv_tables :: hardware_tables where
  "cv_tables =
     \<lparr>hw_inputs = [],
      hw_outputs = [(''cv1'', \<lparr>e_code = ''hardware.cv1.Set($<name>);'', e_automap = JUndefined,
                               e_range = JUndefined, e_where = JStr ''audio''\<rparr>)],
      hw_labels_params = [], hw_labels_outs = [(''cv1'', ''cv1'')]\<rparr>"

definition cv_patch_graph :: "js_error + nodes" where
  "cv_patch_graph =
     (case generate_daisy cv_tables [] 2 False False Map.empty of
        (dsy, nodes) \<Rightarrow>
          map_sum id fst
            (rnbo_audio_outs (hw_labels_outs cv_tables) (daisy_audio_outs dsy) nodes
               [''cv1_env'', ''main'']))"

section \<open>Theorems\<close>

subsection \<open>Label resolution\<close>

lemma out_search_step_hit:
  "label_regex_exec k label \<noteq> None \<Longrightarrow>
     out_search_step outs label st k = out_search_step outs label st' k"
  by (auto simp: out_search_step_def)

lemma out_search_step_miss:
  "label_regex_exec k label = None \<Longrightarrow> out_search_step outs label st k = st"
  by (simp add: out_search_step_def)

lemma out_search_fold:
  "foldl (out_search_step outs label) st ks =
     (if filter (\<lambda>k. label_regex_exec k label \<noteq> None) ks = [] then st
      else out_search_step outs label (None, None)
             (last (filter (\<lambda>k. label_regex_exec k label \<noteq> None) ks)))"
proof (induction ks rule: rev_induct)
  case Nil
  then show ?case by simp
next
  case (snoc k ks)
  show ?case
  proof (cases "label_regex_exec k label = None")
    case True
    then show ?thesis using snoc by (simp add: out_search_step_miss)
  next
    case False
    then show ?thesis
      using out_search_step_hit [OF False, of outs _ "(None, None)"] by simp
  qed
qed

lemma sorted_last_greatest:
  "sorted xs \<Longrightarrow> x \<in> set xs \<Longrightarrow> x \<le> last xs"
  by (induction xs) (auto split: if_splits)

lemma sort_keys_cong:
  assumes "distinct (map fst (outs :: label_table))" "distinct (map fst outs')"
    and "set outs' = set outs"
  shows "sort (map fst outs') = sort (map fst outs)"
proof -
  have "set (map fst outs') = set (map fst outs)" using assms(3) by simp
  then show ?thesis
    using assms(1,2) by (intro sorted_distinct_set_unique) simp_all
qed

lemma out_search_table_order:
  assumes "distinct (map fst outs)" "distinct (map fst outs')" "set outs' = set outs"
  shows "out_search outs' label = out_search outs label"
proof -
  have m: "map_of outs' = map_of outs"
    using assms by (simp add: map_of_inject_set)
  have "out_search_step outs' label = out_search_step outs label"
    by (intro ext) (simp add: out_search_step_def m split: option.splits)
  then show ?thesis
    using sort_keys_cong [OF assms] by (simp add: out_search_def)
qed

text \<open>
  C1. When keys of the output-label table match an outlet's label, the entry the
  search keeps in \<open>map\<close> is the one stored under the last matching key of the
  sorted key list; that key matches, and every matching key of the table is
  lexicographically below or equal to it. The outcome depends on the table's
  content only: a table with the same entries in another insertion order gives the
  same result for the same label.
\<close>

theorem out_search_last_lexicographic_match:
  assumes "list_all literal_key (map fst outs)"
    and "distinct (map fst outs)"
    and "matching_keys outs label \<noteq> []"
  shows "fst (out_search outs label) = map_of outs (last (matching_keys outs label))
       \<and> last (matching_keys outs label) \<in> set (map fst outs)
       \<and> label_regex_exec (last (matching_keys outs label)) label \<noteq> None
       \<and> (\<forall>k \<in> set (map fst outs).
            label_regex_exec k label \<noteq> None \<longrightarrow> k \<le> last (matching_keys outs label))
       \<and> (\<forall>outs'. distinct (map fst outs') \<and> set outs' = set outs \<longrightarrow>
            out_search outs' label = out_search outs label)"
proof -
  let ?ms = "matching_keys outs label"
  have mem: "last ?ms \<in> set ?ms" using assms(3) by simp
  have hit: "label_regex_exec (last ?ms) label \<noteq> None"
    using mem by (simp add: matching_keys_def)
  have key: "last ?ms \<in> set (map fst outs)"
    using mem by (simp add: matching_keys_def)
  have "out_search outs label = out_search_step outs label (None, None) (last ?ms)"
    using assms(3) by (simp add: out_search_def matching_keys_def out_search_fold)
  then have res: "fst (out_search outs label) = map_of outs (last ?ms)"
    using hit by (auto simp: out_search_step_def)
  have srt: "sorted ?ms" by (simp add: matching_keys_def sorted_wrt_filter)
  have top: "\<forall>k \<in> set (map fst outs).
      label_regex_exec k label \<noteq> None \<longrightarrow> k \<le> last ?ms"
  proof (intro ballI impI)
    fix k assume "k \<in> set (map fst outs)" "label_regex_exec k label \<noteq> None"
    then have "k \<in> set ?ms" by (simp add: matching_keys_def)
    then show "k \<le> last ?ms" using srt by (rule sorted_last_greatest [rotated])
  qed
  show ?thesis
    using res key hit top out_search_table_order [OF assms(2)] by blast
qed

theorem out_search_last_lexicographic_match_witness:
  "1 < length (matching_keys [(''cv'', ''cv''), (''gate'', ''gate''), (''cv1'', ''cv1'')] ''cv1_env'')
   \<and> last (matching_keys [(''cv'', ''cv''), (''gate'', ''gate''), (''cv1'', ''cv1'')] ''cv1_env'') = ''cv1''
   \<and> fst (out_search [(''cv'', ''cv''), (''gate'', ''gate''), (''cv1'', ''cv1'')] ''cv1_env'')
       = Some ''cv1''"
proof -
  let ?t = "[(''cv'', ''cv''), (''gate'', ''gate''), (''cv1'', ''cv1'')]"
  have ms: "matching_keys ?t ''cv1_env'' = [''cv'', ''cv1'']" by code_simp
  have h1: "list_all literal_key (map fst ?t)" by code_simp
  have h2: "distinct (map fst ?t)" by simp
  have h3: "matching_keys ?t ''cv1_env'' \<noteq> []" by (simp add: ms)
  have "fst (out_search ?t ''cv1_env'') = map_of ?t (last (matching_keys ?t ''cv1_env''))"
    using out_search_last_lexicographic_match [OF h1 h2 h3] by blast
  then show ?thesis by (simp add: ms)
qed

subsection \<open>Parameter policy\<close>

lemma rnbo_param_fields:
  "node_max (rnbo_param lg ps p) = js_or_num (param_max p) 1"
  "node_min (rnbo_param lg ps p) = js_or_num (param_min p) 0"
  "node_default (rnbo_param lg ps p) = js_or_num (param_default p) 0"
  "node_range (rnbo_param lg ps p)
     = node_max (rnbo_param lg ps p) - node_min (rnbo_param lg ps p)"
  "node_type (rnbo_param lg ps p) = snd (snd (param_search ps (param_name p)))"
  "node_src (rnbo_param lg ps p) = fst (param_search ps (param_name p))"
  "node_stepsize (rnbo_param lg ps p) =
     derive_stepsize lg (node_type (rnbo_param lg ps p)) (node_max (rnbo_param lg ps p))
       (node_default (rnbo_param lg ps p)) (node_range (rnbo_param lg ps p))"
  by (simp_all add: rnbo_param_def Let_def)

lemma param_search_no_labels: "param_search [] n = (None, n, ''float'')"
  by (simp add: param_search_def)

lemma is_integer_numeral: "is_integer 0" "is_integer 1" "is_integer (numeral k)"
  by (simp_all add: is_integer_def)

text \<open>
  What the node stores against what the descriptor declares: minimum and default
  always agree, the maximum agrees unless the descriptor gives the maximum 0.
\<close>

lemma stored_is_declared:
  "node_min (rnbo_param lg ps p) = declared (param_min p) 0"
  "node_default (rnbo_param lg ps p) = declared (param_default p) 0"
  "param_max p \<noteq> Some 0 \<Longrightarrow> node_max (rnbo_param lg ps p) = declared (param_max p) 1"
  "param_max p \<noteq> Some 0 \<Longrightarrow>
     node_range (rnbo_param lg ps p) = declared (param_max p) 1 - declared (param_min p) 0"
  by (auto simp: rnbo_param_fields js_or_num_def declared_def split: option.splits)

text \<open>
  C4, the claim as stated, at the parameter \<open>cutoff\<close> with min 0, max 1, default 0 and
  no hardware label: the type is float, min, max and default are integers, the range
  is 1, and the step size is 1/100, not 1/12.
\<close>

theorem stepsize_unit_range_counterexample:
  "node_type (rnbo_param exact_log2 [] \<lparr>param_name = ''cutoff'', param_cindex = 0,
       param_default = Some 0, param_min = Some 0, param_max = Some 1\<rparr>) \<noteq> ''int''
   \<and> node_type (rnbo_param exact_log2 [] \<lparr>param_name = ''cutoff'', param_cindex = 0,
       param_default = Some 0, param_min = Some 0, param_max = Some 1\<rparr>) \<noteq> ''bool''
   \<and> is_integer (node_min (rnbo_param exact_log2 [] \<lparr>param_name = ''cutoff'', param_cindex = 0,
       param_default = Some 0, param_min = Some 0, param_max = Some 1\<rparr>))
   \<and> is_integer (node_max (rnbo_param exact_log2 [] \<lparr>param_name = ''cutoff'', param_cindex = 0,
       param_default = Some 0, param_min = Some 0, param_max = Some 1\<rparr>))
   \<and> is_integer (node_default (rnbo_param exact_log2 [] \<lparr>param_name = ''cutoff'', param_cindex = 0,
       param_default = Some 0, param_min = Some 0, param_max = Some 1\<rparr>))
   \<and> 0 < node_range (rnbo_param exact_log2 [] \<lparr>param_name = ''cutoff'', param_cindex = 0,
       param_default = Some 0, param_min = Some 0, param_max = Some 1\<rparr>)
   \<and> node_range (rnbo_param exact_log2 [] \<lparr>param_name = ''cutoff'', param_cindex = 0,
       param_default = Some 0, param_min = Some 0, param_max = Some 1\<rparr>) < 10
   \<and> node_stepsize (rnbo_param exact_log2 [] \<lparr>param_name = ''cutoff'', param_cindex = 0,
       param_default = Some 0, param_min = Some 0, param_max = Some 1\<rparr>) = 1 / 100
   \<and> node_stepsize (rnbo_param exact_log2 [] \<lparr>param_name = ''cutoff'', param_cindex = 0,
       param_default = Some 0, param_min = Some 0, param_max = Some 1\<rparr>) \<noteq> 1 / 12"
  by (simp add: rnbo_param_fields param_search_no_labels js_or_num_def derive_stepsize_def
      encoder_stepsize_def ideal_steps_def is_integer_def)

text \<open>
  C4, amended. Take a parameter for which the label search derives a type that is
  neither int nor bool, whose descriptor does not give the maximum 0, and whose
  declared minimum, maximum and default (0, 1 and 0 where the descriptor leaves one
  out) are integers with \<open>2 < maximum - minimum < 10\<close>. Then the node's range is the
  declared \<open>maximum - minimum\<close> and the derived step size is 1/12, whatever the
  runtime's logarithm returns.
\<close>

theorem stepsize_small_integer_range:
  assumes "snd (snd (param_search ps (param_name p))) \<noteq> ''int''"
    and "snd (snd (param_search ps (param_name p))) \<noteq> ''bool''"
    and "param_max p \<noteq> Some 0"
    and "is_integer (declared (param_min p) 0)"
    and "is_integer (declared (param_max p) 1)"
    and "is_integer (declared (param_default p) 0)"
    and "2 < declared (param_max p) 1 - declared (param_min p) 0"
    and "declared (param_max p) 1 - declared (param_min p) 0 < 10"
  shows "node_range (rnbo_param lg ps p) = declared (param_max p) 1 - declared (param_min p) 0
     \<and> node_stepsize (rnbo_param lg ps p) = 1 / 12"
proof -
  have r: "node_range (rnbo_param lg ps p)
      = declared (param_max p) 1 - declared (param_min p) 0"
    using assms(3) by (rule stored_is_declared(4))
  have mx: "node_max (rnbo_param lg ps p) = declared (param_max p) 1"
    using assms(3) by (rule stored_is_declared(3))
  have "node_stepsize (rnbo_param lg ps p) = 1 / 12"
    using assms
    by (simp add: rnbo_param_fields(7) rnbo_param_fields(5) r mx stored_is_declared(2)
        derive_stepsize_def encoder_stepsize_def)
  then show ?thesis using r by simp
qed

theorem stepsize_small_integer_range_witness:
  "snd (snd (param_search [] ''pitch'')) = ''float''
   \<and> declared (Some 7) 1 - declared (Some (- 2)) 0 = (9 :: real)
   \<and> node_range (rnbo_param exact_log2 [] \<lparr>param_name = ''pitch'', param_cindex = 3,
       param_default = None, param_min = Some (- 2), param_max = Some 7\<rparr>) = 9
   \<and> node_stepsize (rnbo_param exact_log2 [] \<lparr>param_name = ''pitch'', param_cindex = 3,
       param_default = None, param_min = Some (- 2), param_max = Some 7\<rparr>) = 1 / 12"
  using stepsize_small_integer_range [of "[]" "\<lparr>param_name = ''pitch'', param_cindex = 3,
       param_default = None, param_min = Some (- 2), param_max = Some 7\<rparr>" exact_log2]
  by (simp add: param_search_no_labels declared_def is_integer_def)

text \<open>
  The step size of the remaining case, on the values the descriptor declares: for a
  parameter of type float whose descriptor does not give the maximum 0, with integer
  maximum and default and a range \<open>maximum - minimum\<close> of at least 10, the step size is
  2 to the power of the rounded logarithm of \<open>range / 100\<close>, the logarithm being the one
  the runtime computes. For min 0, max 127 and default 0 the step size is 1 as soon as
  the runtime's logarithm of 1.27 is within 1/10 of the exact one.
\<close>

lemma stepsize_power_of_two_declared:
  assumes "snd (snd (param_search ps (param_name p))) = ''float''"
    and "param_max p \<noteq> Some 0"
    and "is_integer (declared (param_max p) 1)"
    and "is_integer (declared (param_default p) 0)"
    and "10 \<le> declared (param_max p) 1 - declared (param_min p) 0"
  shows "node_stepsize (rnbo_param lg ps p)
     = 2 powr real_of_int
         (round (lg ((declared (param_max p) 1 - declared (param_min p) 0) / 100)))"
proof -
  have r: "node_range (rnbo_param lg ps p)
      = declared (param_max p) 1 - declared (param_min p) 0"
    using assms(2) by (rule stored_is_declared(4))
  have mx: "node_max (rnbo_param lg ps p) = declared (param_max p) 1"
    using assms(2) by (rule stored_is_declared(3))
  show ?thesis
    using assms
    by (simp add: rnbo_param_fields(7) rnbo_param_fields(5) r mx stored_is_declared(2)
        derive_stepsize_def encoder_stepsize_def ideal_steps_def subdivision_def)
qed

lemma round_unit_interval:
  fixes y :: real
  shows "- (1 / 2) \<le> y \<Longrightarrow> y < 1 / 2 \<Longrightarrow> round y = 0"
    and "1 / 2 \<le> y \<Longrightarrow> y < 3 / 2 \<Longrightarrow> round y = 1"
  unfolding round_def by (simp_all add: floor_eq_iff)

lemma log2_127_percent: "0 \<le> log 2 (127 / 100 :: real)" "log 2 (127 / 100 :: real) < 2 / 5"
proof -
  show "0 \<le> log 2 (127 / 100 :: real)" by simp
  have "(127 / 100 :: real) ^ 5 < 2 ^ 2" by (simp add: power_divide)
  also have "(2 :: real) ^ 2 = (2 powr (2 / 5)) ^ 5"
    by (simp add: powr_power)
  finally have "(127 / 100 :: real) < 2 powr (2 / 5)"
    by (rule power_less_imp_less_base) simp
  then show "log 2 (127 / 100 :: real) < 2 / 5"
    by (subst log_less_iff; simp)
qed

lemma stepsize_midi_range:
  assumes "snd (snd (param_search ps (param_name p))) = ''float''"
    and "param_min p = Some 0" and "param_max p = Some 127" and "param_default p = Some 0"
    and "\<bar>lg (127 / 100) - log 2 (127 / 100)\<bar> \<le> 1 / 10"
  shows "node_stepsize (rnbo_param lg ps p) = 1"
proof -
  have "node_stepsize (rnbo_param lg ps p)
     = 2 powr real_of_int
         (round (lg ((declared (param_max p) 1 - declared (param_min p) 0) / 100)))"
    using assms(1-4)
    by (intro stepsize_power_of_two_declared) (simp_all add: declared_def is_integer_numeral)
  then have s: "node_stepsize (rnbo_param lg ps p)
     = 2 powr real_of_int (round (lg (127 / 100)))"
    using assms(2,3) by (simp add: declared_def)
  have "- (1 / 2) \<le> lg (127 / 100)" "lg (127 / 100) < 1 / 2"
    using assms(5) log2_127_percent by linarith+
  then have "round (lg (127 / 100)) = 0"
    by (rule round_unit_interval(1))
  then show ?thesis using s by simp
qed

lemma round_log2_71_50: "round (log 2 (71 / 50 :: real)) = 1"
proof -
  have "(2 :: real) \<le> (71 / 50) ^ 2" by (simp add: power2_eq_square)
  then have "sqrt 2 \<le> (71 / 50 :: real)" by (intro real_le_lsqrt) simp_all
  then have "2 powr (1 / 2) \<le> (71 / 50 :: real)" by (simp add: powr_half_sqrt)
  then have lo: "1 / 2 \<le> log 2 (71 / 50 :: real)"
    by (subst le_log_iff; simp)
  have "log 2 (71 / 50 :: real) < 1"
    by (subst log_less_iff; simp)
  then have hi: "log 2 (71 / 50 :: real) < 3 / 2" by linarith
  show ?thesis using lo hi by (rule round_unit_interval(2))
qed

lemma round_log2_141_percent: "round (log 2 (141 / 100 :: real)) = 0"
proof -
  have "0 \<le> log 2 (141 / 100 :: real)" by simp
  then have lo: "- (1 / 2) \<le> log 2 (141 / 100 :: real)" by linarith
  have "(141 / 100 :: real) ^ 2 < 2" by (simp add: power2_eq_square)
  then have "(141 / 100 :: real) < sqrt 2" by (rule real_less_rsqrt)
  then have "(141 / 100 :: real) < 2 powr (1 / 2)" by (simp add: powr_half_sqrt)
  then have hi: "log 2 (141 / 100 :: real) < 1 / 2"
    by (subst log_less_iff; simp)
  show ?thesis using lo hi by (rule round_unit_interval(1))
qed

text \<open>
  C5, the code at a parameter \<open>depth\<close> with min -141, max 0 and default 0, all three
  given by the patch descriptor, and no hardware label. The type is float, maximum and
  default are integers and the declared range is 141, for which the claim's step size
  is \<open>2 ^ round (log2 1.41) = 2 ^ 0 = 1\<close>. The code replaces the maximum 0 by 1, stores
  the range 142 and derives the step size from 142/100, whatever logarithm the runtime
  has; with the exact logarithm that is \<open>2 ^ round (log2 1.42) = 2 ^ 1 = 2\<close>.
\<close>

theorem replaced_max_doubles_stepsize:
  "(\<forall>math_log2.
      node_type (rnbo_param math_log2 [] \<lparr>param_name = ''depth'', param_cindex = 0,
          param_default = Some 0, param_min = Some (- 141), param_max = Some 0\<rparr>) = ''float''
      \<and> node_max (rnbo_param math_log2 [] \<lparr>param_name = ''depth'', param_cindex = 0,
          param_default = Some 0, param_min = Some (- 141), param_max = Some 0\<rparr>) = 1
      \<and> node_range (rnbo_param math_log2 [] \<lparr>param_name = ''depth'', param_cindex = 0,
          param_default = Some 0, param_min = Some (- 141), param_max = Some 0\<rparr>) = 142
      \<and> node_stepsize (rnbo_param math_log2 [] \<lparr>param_name = ''depth'', param_cindex = 0,
          param_default = Some 0, param_min = Some (- 141), param_max = Some 0\<rparr>)
          = 2 powr real_of_int (round (math_log2 (142 / 100))))
   \<and> node_stepsize (rnbo_param exact_log2 [] \<lparr>param_name = ''depth'', param_cindex = 0,
          param_default = Some 0, param_min = Some (- 141), param_max = Some 0\<rparr>) = 2
   \<and> declared (Some 0) 1 - declared (Some (- 141)) 0 = (141 :: real)
   \<and> 2 powr real_of_int (round (exact_log2 (141 / 100))) = (1 :: real)"
  by (simp add: rnbo_param_fields param_search_no_labels js_or_num_def derive_stepsize_def
      encoder_stepsize_def ideal_steps_def is_integer_def subdivision_def exact_log2_def
      declared_def round_log2_71_50 round_log2_141_percent)

text \<open>
  C6, the code at a parameter \<open>gain\<close> with min -60, max 0 and default -10, all three
  given by the patch descriptor: the explicit maximum 0 is replaced by 1 and the range
  becomes 61, where the descriptor's values give 60. Minimum and default are kept.
\<close>

theorem explicit_zero_max_replaced:
  "node_max (rnbo_param exact_log2 [] \<lparr>param_name = ''gain'', param_cindex = 0,
       param_default = Some (- 10), param_min = Some (- 60), param_max = Some 0\<rparr>) = 1
   \<and> node_min (rnbo_param exact_log2 [] \<lparr>param_name = ''gain'', param_cindex = 0,
       param_default = Some (- 10), param_min = Some (- 60), param_max = Some 0\<rparr>) = - 60
   \<and> node_default (rnbo_param exact_log2 [] \<lparr>param_name = ''gain'', param_cindex = 0,
       param_default = Some (- 10), param_min = Some (- 60), param_max = Some 0\<rparr>) = - 10
   \<and> node_range (rnbo_param exact_log2 [] \<lparr>param_name = ''gain'', param_cindex = 0,
       param_default = Some (- 10), param_min = Some (- 60), param_max = Some 0\<rparr>) = 61"
  by (simp add: rnbo_param_fields js_or_num_def)

lemma explicit_values_kept:
  "param_min p = Some a \<Longrightarrow> node_min (rnbo_param lg ps p) = a"
  "param_default p = Some d \<Longrightarrow> node_default (rnbo_param lg ps p) = d"
  "param_max p = Some b \<Longrightarrow> b \<noteq> 0 \<Longrightarrow> node_max (rnbo_param lg ps p) = b"
  "param_min p = None \<Longrightarrow> node_min (rnbo_param lg ps p) = 0"
  "param_default p = None \<Longrightarrow> node_default (rnbo_param lg ps p) = 0"
  "param_max p = None \<Longrightarrow> node_max (rnbo_param lg ps p) = 1"
  by (simp_all add: rnbo_param_fields js_or_num_def)

subsection \<open>The automap fill-pass\<close>

lemma next_free_param_spec:
  assumes "list_all (\<lambda>p. p \<noteq> [] \<and> nodes p \<noteq> None) params"
  shows "\<exists>j. next_free_param nodes params upi = Inr j \<and> upi \<le> j
           \<and> filter (unmapped nodes) (drop j params) = filter (unmapped nodes) (drop upi params)
           \<and> (j < length params \<longrightarrow> unmapped nodes (params ! j))"
  using assms
proof (induction nodes params upi rule: next_free_param.induct)
  case (1 nodes params upi)
  show ?case
  proof (cases "upi < length params")
    case False
    then show ?thesis
      by (subst next_free_param.simps) (simp add: at_index_def truthy_def)
  next
    case True
    then have mem: "params ! upi \<in> set params" by simp
    with "1.prems" obtain pn where pn: "nodes (params ! upi) = Some pn" and ne: "params ! upi \<noteq> []"
      by (auto simp: list_all_iff)
    have tr: "truthy (at_index params upi)" using True ne by (simp add: at_index_def truthy_def)
    show ?thesis
    proof (cases "truthy (nd_src pn)")
      case False
      then show ?thesis
        using tr pn True by (subst next_free_param.simps) (simp add: unmapped_def)
    next
      case t: True
      from "1.IH" [OF tr pn t "1.prems"] obtain j where
        j: "next_free_param nodes params (Suc upi) = Inr j" "Suc upi \<le> j"
           "filter (unmapped nodes) (drop j params) = filter (unmapped nodes) (drop (Suc upi) params)"
           "j < length params \<longrightarrow> unmapped nodes (params ! j)"
        by blast
      have "drop upi params = params ! upi # drop (Suc upi) params"
        using True by (simp add: Cons_nth_drop_Suc)
      then have "filter (unmapped nodes) (drop upi params) = filter (unmapped nodes) (drop (Suc upi) params)"
        using pn t by (simp add: unmapped_def)
      then show ?thesis
        using j tr pn t by (subst next_free_param.simps) auto
    qed
  qed
qed

lemma fill_ready_tail:
  "fill_ready nodes (name # ins) params \<Longrightarrow> fill_ready nodes ins params"
  by (simp add: fill_ready_def)

lemma fill_loop_closed:
  assumes "fill_ready nodes ins params"
  shows "\<exists>j. fill_loop params (nodes, upi) ins =
           Inr (foldl connect nodes
                  (zip (filter (automappable nodes) ins)
                       (filter (unmapped nodes) (drop upi params))), j)"
  using assms
proof (induction ins arbitrary: nodes upi)
  case Nil
  then show ?case by simp
next
  case (Cons name ins)
  from Cons.prems obtain node to where
    node: "nodes name = Some node" and to: "nd_to node = Some to"
    and name_ne: "name \<noteq> []" and name_ins: "name \<notin> set ins"
    and name_par: "name \<notin> set params" and dpar: "distinct params"
    and pars: "list_all (\<lambda>p. p \<noteq> [] \<and> nodes p \<noteq> None) params"
    by (auto simp: fill_ready_def split: option.splits)
  have tail: "fill_ready nodes ins params" using Cons.prems by (rule fill_ready_tail)
  show ?case
  proof (cases "to = [] \<and> nd_automap node")
    case False
    then have st: "fill_step params (nodes, upi) name = Inr (nodes, upi)"
      using node to by (auto simp: fill_step_def)
    have "\<not> automappable nodes name"
      using False node to by (simp add: automappable_def)
    then show ?thesis
      using Cons.IH [OF tail, of upi] st by simp
  next
    case True
    then have am: "automappable nodes name"
      using node to by (simp add: automappable_def)
    from next_free_param_spec [OF pars, of upi] obtain j where
      j: "next_free_param nodes params upi = Inr j" "upi \<le> j"
      and jf: "filter (unmapped nodes) (drop j params) = filter (unmapped nodes) (drop upi params)"
      and ju: "j < length params \<longrightarrow> unmapped nodes (params ! j)"
      by blast
    show ?thesis
    proof (cases "j < length params")
      case False
      then have "\<not> truthy (at_index params j)" by (simp add: at_index_def truthy_def)
      then have st: "fill_step params (nodes, upi) name = Inr (nodes, j)"
        using node to True j by (simp add: fill_step_def)
      have e: "filter (unmapped nodes) (drop upi params) = []"
        using False jf by simp
      have e': "filter (unmapped nodes) (drop j params) = []"
        using False by simp
      show ?thesis
        using Cons.IH [OF tail, of j] st by (simp add: e e')
    next
      case jl: True
      let ?p = "params ! j"
      have pmem: "?p \<in> set params" using jl by simp
      then obtain pn where pn: "nodes ?p = Some pn" and p_ne: "?p \<noteq> []"
        using pars by (auto simp: list_all_iff)
      have pname: "?p \<noteq> name" using pmem name_par by auto
      have tr: "truthy (at_index params j)" using jl p_ne by (simp add: at_index_def truthy_def)
      let ?nodes2 = "nodes(?p \<mapsto> pn\<lparr>nd_src := Some name\<rparr>,
                          name \<mapsto> node\<lparr>nd_to := Some (to @ [?p])\<rparr>)"
      have st: "fill_step params (nodes, upi) name = Inr (?nodes2, j)"
        using node to True j tr pn pname by (simp add: fill_step_def Let_def)
      have con: "connect nodes (name, ?p) = ?nodes2"
        using node pn to by (simp add: connect_def)
      have same: "\<And>x. x \<noteq> name \<Longrightarrow> x \<noteq> ?p \<Longrightarrow> ?nodes2 x = nodes x" by simp
      have p_ins: "?p \<notin> set ins"
        using Cons.prems pmem by (auto simp: fill_ready_def list_all_iff)
      have A: "filter (automappable ?nodes2) ins = filter (automappable nodes) ins"
      proof (rule filter_cong [OF refl])
        fix a assume "a \<in> set ins"
        then have "a \<noteq> name" "a \<noteq> ?p" using name_ins p_ins by auto
        then show "automappable ?nodes2 a = automappable nodes a"
          by (simp add: automappable_def)
      qed
      have dj: "drop j params = ?p # drop (Suc j) params"
        using jl by (simp add: Cons_nth_drop_Suc)
      have pnot: "?p \<notin> set (drop (Suc j) params)"
        using dpar dj by (metis distinct.simps(2) distinct_drop)
      have U2: "filter (unmapped ?nodes2) (drop j params)
                 = filter (unmapped nodes) (drop (Suc j) params)"
      proof -
        have "\<not> unmapped ?nodes2 ?p"
          using pname name_ne by (simp add: unmapped_def truthy_def)
        moreover have "filter (unmapped ?nodes2) (drop (Suc j) params)
                 = filter (unmapped nodes) (drop (Suc j) params)"
        proof (rule filter_cong [OF refl])
          fix q assume q: "q \<in> set (drop (Suc j) params)"
          then have "q \<in> set params" by (rule in_set_dropD)
          then have "q \<noteq> name" using name_par by auto
          moreover have "q \<noteq> ?p" using q pnot by auto
          ultimately show "unmapped ?nodes2 q = unmapped nodes q"
            by (simp add: unmapped_def)
        qed
        ultimately show ?thesis by (simp add: dj)
      qed
      have U: "filter (unmapped nodes) (drop upi params)
                 = ?p # filter (unmapped nodes) (drop (Suc j) params)"
        using jf ju jl by (simp add: dj)
      have insame: "\<And>a. a \<in> set ins \<Longrightarrow> ?nodes2 a = nodes a"
        using name_ins p_ins by auto
      have parsome: "\<And>q. q \<in> set params \<Longrightarrow> ?nodes2 q \<noteq> None"
        using pars by (auto simp: list_all_iff)
      have ready2: "fill_ready ?nodes2 ins params"
        using tail insame parsome
        by (simp add: fill_ready_def list_all_iff del: fun_upd_apply)
      from Cons.IH [OF ready2, of j] obtain j' where
        "fill_loop params (?nodes2, j) ins =
           Inr (foldl connect ?nodes2
                  (zip (filter (automappable ?nodes2) ins)
                       (filter (unmapped ?nodes2) (drop j params))), j')"
        by blast
      then show ?thesis
        using st am con by (simp add: A U2 U)
    qed
  qed
qed


lemma connect_other:
  "x \<noteq> a \<Longrightarrow> x \<noteq> p \<Longrightarrow> connect nodes (a, p) x = nodes x"
  by (simp add: connect_def split: option.splits)

lemma connect_defined:
  "nodes x \<noteq> None \<Longrightarrow> connect nodes e x \<noteq> None"
  by (cases e) (simp add: connect_def split: option.splits)

lemma connect_input:
  "a \<noteq> p \<Longrightarrow> nodes a = Some n \<Longrightarrow> nodes p = Some pn \<Longrightarrow> nd_to n = Some to \<Longrightarrow>
     connect nodes (a, p) a = Some (n\<lparr>nd_to := Some (to @ [p])\<rparr>)"
  by (simp add: connect_def)

lemma connect_param:
  "a \<noteq> p \<Longrightarrow> nodes a = Some n \<Longrightarrow> nodes p = Some pn \<Longrightarrow>
     connect nodes (a, p) p = Some (pn\<lparr>nd_src := Some a\<rparr>)"
  by (simp add: connect_def)

lemma foldl_connect_other:
  "x \<notin> fst ` set Z \<Longrightarrow> x \<notin> snd ` set Z \<Longrightarrow> foldl connect nodes Z x = nodes x"
proof (induction Z arbitrary: nodes)
  case Nil
  then show ?case by simp
next
  case (Cons e Z)
  obtain a p where e: "e = (a, p)" by (cases e)
  have "foldl connect (connect nodes e) Z x = connect nodes e x"
    using Cons by simp
  also have "\<dots> = nodes x" using Cons.prems e by (simp add: connect_other)
  finally show ?case by simp
qed

lemma foldl_connect_edge:
  assumes "distinct (map fst Z)" "distinct (map snd Z)" "fst ` set Z \<inter> snd ` set Z = {}"
    and "(a, p) \<in> set Z" "nodes a = Some n" "nodes p = Some pn" "nd_to n = Some to"
    and "\<forall>e \<in> set Z. nodes (fst e) \<noteq> None \<and> nodes (snd e) \<noteq> None"
  shows "foldl connect nodes Z a = Some (n\<lparr>nd_to := Some (to @ [p])\<rparr>)
       \<and> foldl connect nodes Z p = Some (pn\<lparr>nd_src := Some a\<rparr>)"
  using assms
proof (induction Z arbitrary: nodes)
  case Nil
  then show ?case by simp
next
  case (Cons e Z)
  obtain a0 p0 where e: "e = (a0, p0)" by (cases e)
  have ap: "a \<noteq> p" using Cons.prems(3,4) by (force simp: image_iff)
  show ?case
  proof (cases "(a, p) = e")
    case True
    then have a0: "a0 = a" and p0: "p0 = p" using e by auto
    have "a \<notin> fst ` set Z" using Cons.prems(1) e a0 by (force simp: image_iff)
    moreover have "a \<notin> snd ` set Z" using Cons.prems(3) e a0 by auto
    ultimately have 1: "foldl connect (connect nodes e) Z a = connect nodes e a"
      by (rule foldl_connect_other)
    have "p \<notin> snd ` set Z" using Cons.prems(2) e p0 by (force simp: image_iff)
    moreover have "p \<notin> fst ` set Z" using Cons.prems(3) e p0 by auto
    ultimately have 2: "foldl connect (connect nodes e) Z p = connect nodes e p"
      by (simp add: foldl_connect_other)
    show ?thesis
      using 1 2 e a0 p0 Cons.prems(5,6,7) ap
      by (simp add: connect_input connect_param)
  next
    case False
    then have mem: "(a, p) \<in> set Z" using Cons.prems(4) by auto
    have "a \<noteq> a0" using Cons.prems(1) mem e by (auto simp: image_iff) 
    moreover have "a \<noteq> p0" using Cons.prems(3) mem e by (auto simp: image_iff) 
    ultimately have na: "connect nodes e a = Some n"
      using Cons.prems(5) e by (simp add: connect_other)
    have "p \<noteq> p0" using Cons.prems(2) mem e by (auto simp: image_iff) 
    moreover have "p \<noteq> a0" using Cons.prems(3) mem e by (auto simp: image_iff) 
    ultimately have np: "connect nodes e p = Some pn"
      using Cons.prems(6) e by (simp add: connect_other)
    have d: "distinct (map fst Z)" "distinct (map snd Z)" "fst ` set Z \<inter> snd ` set Z = {}"
      using Cons.prems(1,2,3) by auto
    have al: "\<forall>e' \<in> set Z. connect nodes e (fst e') \<noteq> None \<and> connect nodes e (snd e') \<noteq> None"
      using Cons.prems(8) by (simp add: connect_defined)
    show ?thesis
      using Cons.IH [OF d mem na np Cons.prems(7) al] by simp
  qed
qed


lemma new_edges_facts:
  assumes "fill_ready nodes inputs params"
  shows "distinct (map fst (new_edges nodes inputs params))"
    and "distinct (map snd (new_edges nodes inputs params))"
    and "fst ` set (new_edges nodes inputs params) \<inter> snd ` set (new_edges nodes inputs params) = {}"
    and "\<And>e. e \<in> set (new_edges nodes inputs params) \<Longrightarrow>
           \<exists>n pn. nodes (fst e) = Some n \<and> nodes (snd e) = Some pn \<and> nd_to n = Some []"
proof -
  let ?A = "free_inputs nodes inputs" and ?U = "free_params nodes params"
  have dA: "distinct ?A" and dU: "distinct ?U"
    using assms by (simp_all add: fill_ready_def free_inputs_def free_params_def)
  show "distinct (map fst (new_edges nodes inputs params))"
    using dA by (simp add: new_edges_def map_fst_zip_take)
  show "distinct (map snd (new_edges nodes inputs params))"
    using dU by (simp add: new_edges_def map_snd_zip_take)
  have sub: "fst ` set (new_edges nodes inputs params) \<subseteq> set inputs"
       "snd ` set (new_edges nodes inputs params) \<subseteq> set params"
    by (auto simp: new_edges_def free_inputs_def free_params_def dest: set_zip_leftD set_zip_rightD)
  have "set inputs \<inter> set params = {}"
    using assms by (auto simp: fill_ready_def list_all_iff)
  then show "fst ` set (new_edges nodes inputs params) \<inter> snd ` set (new_edges nodes inputs params) = {}"
    using sub by blast
  fix e assume "e \<in> set (new_edges nodes inputs params)"
  then have "(fst e, snd e) \<in> set (zip (filter (automappable nodes) inputs)
                                        (filter (unmapped nodes) params))"
    by (simp add: new_edges_def free_inputs_def free_params_def)
  then have "fst e \<in> set (filter (automappable nodes) inputs)"
    and "snd e \<in> set (filter (unmapped nodes) params)"
    by (rule set_zip_leftD, rule set_zip_rightD)
  then have "automappable nodes (fst e)" "unmapped nodes (snd e)"
    by simp_all
  then show "\<exists>n pn. nodes (fst e) = Some n \<and> nodes (snd e) = Some pn \<and> nd_to n = Some []"
    by (auto simp: automappable_def unmapped_def split: option.splits)
qed

text \<open>
  The whole construction on the example target and patch: the switch drives the
  parameter labelled for it, the fill-pass gives the free knob the first parameter
  without \<open>src\<close>, and the switch's derived inputs stay unconnected.
\<close>

lemma knob_patch_graph_edges:
  "map_sum id
     (\<lambda>ns. (map (\<lambda>k. map_option nd_to (ns k)) [''knob1'', ''sw1'', ''sw1_rise''],
            map (\<lambda>k. map_option nd_src (ns k))
              [''rnbo_param_sw1_mute_0'', ''rnbo_param_cutoff_1'', ''rnbo_param_resonance_2'']))
     knob_patch_graph
   = Inr ([Some (Some [''rnbo_param_cutoff_1'']), Some (Some [''rnbo_param_sw1_mute_0'']),
           Some (Some [])],
          [Some (Some ''sw1''), Some (Some ''knob1''), Some None])"
  by code_simp
text \<open>
  C3. On a well-formed store the fill-pass returns, and with N the automap-flagged
  inputs whose \<open>to\<close> list is empty and M the parameters without \<open>src\<close>, it
  creates min(N, M) edges: the i-th such input (in table order) is paired with the
  i-th such parameter (in declaration order), the input's \<open>to\<close> becomes that
  parameter, the parameter's \<open>src\<close> becomes that input, every other node is left as
  it was, and no parameter occurs in two of the new edges.
\<close>

theorem automap_fill_pass_edges:
  assumes "fill_ready nodes inputs params"
  shows "\<exists>nodes'. fill_pass nodes inputs params = Inr nodes'
     \<and> length (new_edges nodes inputs params)
         = min (length (free_inputs nodes inputs)) (length (free_params nodes params))
     \<and> (\<forall>i < length (new_edges nodes inputs params).
           new_edges nodes inputs params ! i
             = (free_inputs nodes inputs ! i, free_params nodes params ! i))
     \<and> (\<forall>e \<in> set (new_edges nodes inputs params).
           \<exists>n pn. nodes (fst e) = Some n \<and> nodes (snd e) = Some pn
             \<and> nodes' (fst e) = Some (n\<lparr>nd_to := Some [snd e]\<rparr>)
             \<and> nodes' (snd e) = Some (pn\<lparr>nd_src := Some (fst e)\<rparr>))
     \<and> (\<forall>x. x \<notin> fst ` set (new_edges nodes inputs params)
             \<longrightarrow> x \<notin> snd ` set (new_edges nodes inputs params) \<longrightarrow> nodes' x = nodes x)
     \<and> distinct (map snd (new_edges nodes inputs params))"
proof -
  let ?Z = "new_edges nodes inputs params"
  let ?nodes' = "foldl connect nodes ?Z"
  from fill_loop_closed [OF assms, of 0] obtain j where
    "fill_loop params (nodes, 0) inputs = Inr (?nodes', j)"
    by (auto simp: new_edges_def free_inputs_def free_params_def)
  then have run: "fill_pass nodes inputs params = Inr ?nodes'"
    by (simp add: fill_pass_def)
  note f = new_edges_facts [OF assms]
  have len: "length ?Z = min (length (free_inputs nodes inputs)) (length (free_params nodes params))"
    by (simp add: new_edges_def)
  have nth: "\<forall>i < length ?Z. ?Z ! i = (free_inputs nodes inputs ! i, free_params nodes params ! i)"
    by (simp add: new_edges_def)
  have def: "\<forall>e \<in> set ?Z. nodes (fst e) \<noteq> None \<and> nodes (snd e) \<noteq> None"
    using f(4) by fastforce
  have edge: "\<forall>e \<in> set ?Z.
           \<exists>n pn. nodes (fst e) = Some n \<and> nodes (snd e) = Some pn
             \<and> ?nodes' (fst e) = Some (n\<lparr>nd_to := Some [snd e]\<rparr>)
             \<and> ?nodes' (snd e) = Some (pn\<lparr>nd_src := Some (fst e)\<rparr>)"
  proof
    fix e assume e: "e \<in> set ?Z"
    from f(4) [OF e] obtain n pn where
      n: "nodes (fst e) = Some n" "nodes (snd e) = Some pn" "nd_to n = Some []" by blast
    have mem: "(fst e, snd e) \<in> set ?Z" using e by simp
    from foldl_connect_edge [OF f(1) f(2) f(3) mem n def]
    show "\<exists>n pn. nodes (fst e) = Some n \<and> nodes (snd e) = Some pn
             \<and> ?nodes' (fst e) = Some (n\<lparr>nd_to := Some [snd e]\<rparr>)
             \<and> ?nodes' (snd e) = Some (pn\<lparr>nd_src := Some (fst e)\<rparr>)"
      using n by simp
  qed
  have other: "\<forall>x. x \<notin> fst ` set ?Z \<longrightarrow> x \<notin> snd ` set ?Z \<longrightarrow> ?nodes' x = nodes x"
    by (simp add: foldl_connect_other)
  show ?thesis
    using run len nth edge other f(2) by blast
qed

theorem automap_fill_pass_edges_witness:
  "fill_ready example_graph example_inputs example_params
   \<and> length (free_inputs example_graph example_inputs) = 3
   \<and> length (free_params example_graph example_params) = 2
   \<and> (\<exists>nodes'. fill_pass example_graph example_inputs example_params = Inr nodes'
        \<and> map_option nd_to (nodes' ''knob1'') = Some (Some [''rnbo_param_b_1''])
        \<and> map_option nd_src (nodes' ''rnbo_param_b_1'') = Some (Some ''knob1'')
        \<and> map_option nd_to (nodes' ''knob3'') = Some (Some [''rnbo_param_c_2''])
        \<and> map_option nd_src (nodes' ''rnbo_param_c_2'') = Some (Some ''knob3'')
        \<and> nodes' ''knob4'' = example_graph ''knob4'')"
proof -
  have ready: "fill_ready example_graph example_inputs example_params" by code_simp
  have n: "length (free_inputs example_graph example_inputs) = 3" by code_simp
  have m: "length (free_params example_graph example_params) = 2" by code_simp
  have z: "new_edges example_graph example_inputs example_params
             = [(''knob1'', ''rnbo_param_b_1''), (''knob3'', ''rnbo_param_c_2'')]"
    by code_simp
  from automap_fill_pass_edges [OF ready] obtain nodes' where
    run: "fill_pass example_graph example_inputs example_params = Inr nodes'"
    and edge: "\<forall>e \<in> set (new_edges example_graph example_inputs example_params).
           \<exists>n pn. example_graph (fst e) = Some n \<and> example_graph (snd e) = Some pn
             \<and> nodes' (fst e) = Some (n\<lparr>nd_to := Some [snd e]\<rparr>)
             \<and> nodes' (snd e) = Some (pn\<lparr>nd_src := Some (fst e)\<rparr>)"
    and other: "\<forall>x. x \<notin> fst ` set (new_edges example_graph example_inputs example_params)
             \<longrightarrow> x \<notin> snd ` set (new_edges example_graph example_inputs example_params)
             \<longrightarrow> nodes' x = example_graph x"
    by blast
  have e1: "map_option nd_to (nodes' ''knob1'') = Some (Some [''rnbo_param_b_1''])
          \<and> map_option nd_src (nodes' ''rnbo_param_b_1'') = Some (Some ''knob1'')"
    using edge by (auto simp: z)
  have e2: "map_option nd_to (nodes' ''knob3'') = Some (Some [''rnbo_param_c_2''])
          \<and> map_option nd_src (nodes' ''rnbo_param_c_2'') = Some (Some ''knob3'')"
    using edge by (auto simp: z)
  have e3: "nodes' ''knob4'' = example_graph ''knob4''"
    using other by (simp add: z)
  show ?thesis using ready n m run e1 e2 e3 by blast
qed

subsection \<open>Audio-output fan-in\<close>

lemma fan_in_loop_closed:
  assumes "distinct names" "\<forall>n \<in> set names. nodes n \<noteq> None"
  shows "\<exists>nodes'. fan_in_loop nodes avail i names = Inr nodes'
     \<and> (\<forall>x. x \<notin> set names \<longrightarrow> nodes' x = nodes x)
     \<and> (\<forall>k < length names.
          nodes' (names ! k) =
            (if has_src nodes (names ! k) \<or> avail @ assigned_before nodes names k = []
             then nodes (names ! k)
             else map_option
                    (\<lambda>n. n\<lparr>nd_src := Some ((avail @ assigned_before nodes names k)
                                  ! ((i + k) mod length (avail @ assigned_before nodes names k)))\<rparr>)
                    (nodes (names ! k))))"
  using assms
proof (induction names arbitrary: nodes avail i)
  case Nil
  then show ?case by simp
next
  case (Cons name names)
  from Cons.prems obtain node where node: "nodes name = Some node" by auto
  have nn: "name \<notin> set names" and d: "distinct names" using Cons.prems by auto
  define nodes1 where "nodes1 =
     (if truthy (nd_src node) \<or> avail = [] then nodes
      else nodes(name \<mapsto> node\<lparr>nd_src := Some (avail ! (i mod length avail))\<rparr>))"
  define avail1 where "avail1 = (if truthy (nd_src node) then avail @ [name] else avail)"
  have step: "fan_in_loop nodes avail i (name # names) = fan_in_loop nodes1 avail1 (Suc i) names"
    using node by (simp add: nodes1_def avail1_def)
  have same: "\<And>x. x \<noteq> name \<Longrightarrow> nodes1 x = nodes x" by (simp add: nodes1_def)
  have ex1: "\<forall>n \<in> set names. nodes1 n \<noteq> None"
  proof
    fix n assume n: "n \<in> set names"
    then have "n \<noteq> name" using nn by auto
    then show "nodes1 n \<noteq> None" using same Cons.prems(2) n by simp
  qed
  from Cons.IH [OF d ex1, of avail1 "Suc i"] obtain nodes' where
    run: "fan_in_loop nodes1 avail1 (Suc i) names = Inr nodes'"
    and out: "\<forall>x. x \<notin> set names \<longrightarrow> nodes' x = nodes1 x"
    and at: "\<forall>k < length names.
          nodes' (names ! k) =
            (if has_src nodes1 (names ! k) \<or> avail1 @ assigned_before nodes1 names k = []
             then nodes1 (names ! k)
             else map_option
                    (\<lambda>n. n\<lparr>nd_src := Some ((avail1 @ assigned_before nodes1 names k)
                                  ! ((Suc i + k) mod length (avail1 @ assigned_before nodes1 names k)))\<rparr>)
                    (nodes1 (names ! k)))"
    by blast
  have hs: "\<And>x. x \<in> set names \<Longrightarrow> has_src nodes1 x = has_src nodes x"
  proof -
    fix x assume "x \<in> set names"
    then have "x \<noteq> name" using nn by auto
    then show "has_src nodes1 x = has_src nodes x" by (simp add: has_src_def same)
  qed
  have ab: "\<And>k. assigned_before nodes1 names k = assigned_before nodes names k"
    unfolding assigned_before_def
    by (rule filter_cong [OF refl]) (auto dest: in_set_takeD simp: hs)
  have av: "\<And>k. avail1 @ assigned_before nodes names k
              = avail @ assigned_before nodes (name # names) (Suc k)"
    using node by (simp add: avail1_def assigned_before_def has_src_def)
  have head: "nodes' name =
            (if has_src nodes name \<or> avail = [] then nodes name
             else map_option (\<lambda>n. n\<lparr>nd_src := Some (avail ! (i mod length avail))\<rparr>) (nodes name))"
    using out nn node by (simp add: nodes1_def has_src_def)
  have atk: "\<forall>k < length (name # names).
          nodes' ((name # names) ! k) =
            (if has_src nodes ((name # names) ! k) \<or> avail @ assigned_before nodes (name # names) k = []
             then nodes ((name # names) ! k)
             else map_option
                    (\<lambda>n. n\<lparr>nd_src := Some ((avail @ assigned_before nodes (name # names) k)
                                  ! ((i + k) mod length (avail @ assigned_before nodes (name # names) k)))\<rparr>)
                    (nodes ((name # names) ! k)))"
  proof (intro allI impI)
    fix k assume k: "k < length (name # names)"
    show "nodes' ((name # names) ! k) =
            (if has_src nodes ((name # names) ! k) \<or> avail @ assigned_before nodes (name # names) k = []
             then nodes ((name # names) ! k)
             else map_option
                    (\<lambda>n. n\<lparr>nd_src := Some ((avail @ assigned_before nodes (name # names) k)
                                  ! ((i + k) mod length (avail @ assigned_before nodes (name # names) k)))\<rparr>)
                    (nodes ((name # names) ! k)))"
    proof (cases k)
      case 0
      then show ?thesis using head by (simp add: assigned_before_def)
    next
      case (Suc k')
      then have k': "k' < length names" using k by simp
      then have mem: "names ! k' \<in> set names" by simp
      then have ne: "names ! k' \<noteq> name" using nn by auto
      show ?thesis
        using at k' by (simp add: Suc ab av hs [OF mem] same [OF ne])
    qed
  qed
  have outk: "\<forall>x. x \<notin> set (name # names) \<longrightarrow> nodes' x = nodes x"
    using out same by auto
  have "fan_in_loop nodes avail i (name # names) = Inr nodes'"
    using step run by simp
  then show ?case
    by (intro exI [of _ nodes'] conjI) (assumption, rule outk, rule atk)
qed

text \<open>
  The store \<open>routed_first_graph\<close> is what generate_app builds for the raw outputs of
  a target with a hardware output \<open>cv1\<close> and a patch with the outlets \<open>cv1_env\<close>
  and \<open>main\<close>; the fan-in pass on the whole store leaves \<open>dsy_out1\<close> without \<open>src\<close>.
\<close>

lemma cv_patch_graph_outputs:
  "map_sum id (\<lambda>ns. (ns ''dsy_out1'', ns ''dsy_out2'')) cv_patch_graph
     = Inr (routed_first_graph ''dsy_out1'', routed_first_graph ''dsy_out2'')"
  by code_simp

lemma cv_patch_fan_in:
  "map_sum id (\<lambda>ns. map (\<lambda>k. map_option nd_src (ns k)) [''dsy_out1'', ''dsy_out2''])
     (case cv_patch_graph of
        Inl e \<Rightarrow> Inl e
      | Inr ns \<Rightarrow> normal_audio_outs ns [''dsy_out1'', ''dsy_out2''])
     = Inr [Some None, Some (Some ''dsy_out2'')]"
  by code_simp

text \<open>
  C7, the claim as stated, at the raw outputs \<open>dsy_out1\<close> (no \<open>src\<close>) and
  \<open>dsy_out2\<close> (assigned): an output was assigned, and \<open>dsy_out1\<close> still has no
  \<open>src\<close> after the pass, which leaves the store as it was.
\<close>

theorem fan_in_silent_before_first_assigned_counterexample:
  "has_src routed_first_graph ''dsy_out2''
   \<and> \<not> has_src routed_first_graph ''dsy_out1''
   \<and> normal_audio_outs routed_first_graph [''dsy_out1'', ''dsy_out2''] = Inr routed_first_graph
   \<and> map_option nd_src (routed_first_graph ''dsy_out1'') = Some None"
  by (simp add: routed_first_graph_def normal_audio_outs_def has_src_def truthy_def)

text \<open>
  C7, amended. The pass returns on a store that has a node for each of the (distinct)
  raw outputs. An output that had a \<open>src\<close> keeps its node. An output at position \<open>i\<close>
  without \<open>src\<close> gets as \<open>src\<close> the name at position \<open>i mod k\<close> of the \<open>k\<close> outputs
  before it that had a \<open>src\<close> when the pass started, if there is one, and keeps its
  node (no \<open>src\<close>) if there is none. No other node changes.
\<close>

theorem fan_in_normalization:
  assumes "distinct audio_outs" and "\<forall>n \<in> set audio_outs. nodes n \<noteq> None"
  shows "\<exists>nodes'. normal_audio_outs nodes audio_outs = Inr nodes'
     \<and> (\<forall>x. x \<notin> set audio_outs \<longrightarrow> nodes' x = nodes x)
     \<and> (\<forall>i < length audio_outs.
          (has_src nodes (audio_outs ! i) \<longrightarrow> nodes' (audio_outs ! i) = nodes (audio_outs ! i))
        \<and> (\<not> has_src nodes (audio_outs ! i) \<and> assigned_before nodes audio_outs i = []
             \<longrightarrow> nodes' (audio_outs ! i) = nodes (audio_outs ! i))
        \<and> (\<not> has_src nodes (audio_outs ! i) \<and> assigned_before nodes audio_outs i \<noteq> []
             \<longrightarrow> nodes' (audio_outs ! i)
                   = map_option
                       (\<lambda>n. n\<lparr>nd_src := Some (assigned_before nodes audio_outs i
                                  ! (i mod length (assigned_before nodes audio_outs i)))\<rparr>)
                       (nodes (audio_outs ! i))
                 \<and> assigned_before nodes audio_outs i
                       ! (i mod length (assigned_before nodes audio_outs i))
                     \<in> set (take i audio_outs)
                 \<and> has_src nodes (assigned_before nodes audio_outs i
                       ! (i mod length (assigned_before nodes audio_outs i)))))"
proof -
  from fan_in_loop_closed [OF assms, of "[]" 0] obtain nodes' where
    run: "normal_audio_outs nodes audio_outs = Inr nodes'"
    and out: "\<forall>x. x \<notin> set audio_outs \<longrightarrow> nodes' x = nodes x"
    and at: "\<forall>k < length audio_outs.
          nodes' (audio_outs ! k) =
            (if has_src nodes (audio_outs ! k) \<or> assigned_before nodes audio_outs k = []
             then nodes (audio_outs ! k)
             else map_option
                    (\<lambda>n. n\<lparr>nd_src := Some (assigned_before nodes audio_outs k
                                  ! (k mod length (assigned_before nodes audio_outs k)))\<rparr>)
                    (nodes (audio_outs ! k)))"
    by (auto simp: normal_audio_outs_def)
  have pick: "\<And>i. assigned_before nodes audio_outs i \<noteq> [] \<Longrightarrow>
      assigned_before nodes audio_outs i ! (i mod length (assigned_before nodes audio_outs i))
        \<in> set (take i audio_outs)
      \<and> has_src nodes (assigned_before nodes audio_outs i
                         ! (i mod length (assigned_before nodes audio_outs i)))"
  proof -
    fix i assume ne: "assigned_before nodes audio_outs i \<noteq> []"
    let ?av = "assigned_before nodes audio_outs i"
    have "?av ! (i mod length ?av) \<in> set ?av" using ne by simp
    then show "?av ! (i mod length ?av) \<in> set (take i audio_outs)
             \<and> has_src nodes (?av ! (i mod length ?av))"
      by (simp add: assigned_before_def)
  qed
  have "\<forall>i < length audio_outs.
          (has_src nodes (audio_outs ! i) \<longrightarrow> nodes' (audio_outs ! i) = nodes (audio_outs ! i))
        \<and> (\<not> has_src nodes (audio_outs ! i) \<and> assigned_before nodes audio_outs i = []
             \<longrightarrow> nodes' (audio_outs ! i) = nodes (audio_outs ! i))
        \<and> (\<not> has_src nodes (audio_outs ! i) \<and> assigned_before nodes audio_outs i \<noteq> []
             \<longrightarrow> nodes' (audio_outs ! i)
                   = map_option
                       (\<lambda>n. n\<lparr>nd_src := Some (assigned_before nodes audio_outs i
                                  ! (i mod length (assigned_before nodes audio_outs i)))\<rparr>)
                       (nodes (audio_outs ! i))
                 \<and> assigned_before nodes audio_outs i
                       ! (i mod length (assigned_before nodes audio_outs i))
                     \<in> set (take i audio_outs)
                 \<and> has_src nodes (assigned_before nodes audio_outs i
                       ! (i mod length (assigned_before nodes audio_outs i))))"
    using at pick by simp
  then show ?thesis
    using run out by (intro exI [of _ nodes'] conjI) (assumption, assumption, assumption)
qed

theorem fan_in_normalization_witness:
  "\<exists>nodes'. normal_audio_outs mono_graph [''dsy_out1'', ''dsy_out2'', ''dsy_out3''] = Inr nodes'
     \<and> map_option nd_src (nodes' ''dsy_out1'') = Some (Some ''dsy_out1'')
     \<and> map_option nd_src (nodes' ''dsy_out2'') = Some (Some ''dsy_out1'')
     \<and> map_option nd_src (nodes' ''dsy_out3'') = Some (Some ''dsy_out1'')"
proof -
  let ?outs = "[''dsy_out1'', ''dsy_out2'', ''dsy_out3'']"
  have d: "distinct ?outs" by simp
  have ex: "\<forall>n \<in> set ?outs. mono_graph n \<noteq> None" by (simp add: mono_graph_def)
  have h1: "has_src mono_graph ''dsy_out1''" and h2: "\<not> has_src mono_graph ''dsy_out2''"
    and h3: "\<not> has_src mono_graph ''dsy_out3''"
    by (simp_all add: has_src_def mono_graph_def truthy_def)
  have a1: "assigned_before mono_graph ?outs 1 = [''dsy_out1'']"
    and a2: "assigned_before mono_graph ?outs 2 = [''dsy_out1'']"
    by (simp_all add: assigned_before_def h1 h2 numeral_2_eq_2)
  from fan_in_normalization [OF d ex] obtain nodes' where
    run: "normal_audio_outs mono_graph ?outs = Inr nodes'"
    and at: "\<forall>i < length ?outs.
          (has_src mono_graph (?outs ! i) \<longrightarrow> nodes' (?outs ! i) = mono_graph (?outs ! i))
        \<and> (\<not> has_src mono_graph (?outs ! i) \<and> assigned_before mono_graph ?outs i \<noteq> []
             \<longrightarrow> nodes' (?outs ! i)
                   = map_option
                       (\<lambda>n. n\<lparr>nd_src := Some (assigned_before mono_graph ?outs i
                                  ! (i mod length (assigned_before mono_graph ?outs i)))\<rparr>)
                       (mono_graph (?outs ! i)))"
    by blast
  have "nodes' ''dsy_out1'' = mono_graph ''dsy_out1''"
    using at [rule_format, of 0] h1 by simp
  then have s1: "map_option nd_src (nodes' ''dsy_out1'') = Some (Some ''dsy_out1'')"
    by (simp add: mono_graph_def)
  have s2: "map_option nd_src (nodes' ''dsy_out2'') = Some (Some ''dsy_out1'')"
    using at [rule_format, of 1] h2 a1 by (simp add: mono_graph_def)
  have s3: "map_option nd_src (nodes' ''dsy_out3'') = Some (Some ''dsy_out1'')"
    using at [rule_format, of 2] h3 a2 by (simp add: mono_graph_def)
  show ?thesis using run s1 s2 s3 by blast
qed

subsection \<open>Registering the components' mappings\<close>

lemma js_and_truthy: "js_truthy (js_and a (JBool b)) \<longleftrightarrow> js_truthy a \<and> b"
  by (simp add: js_and_def)

lemma set_alist_update:
  "set (AList.update k v al) \<subseteq> insert (k, v) (set al)"
  by (induction al) auto

lemma register_output_inputs:
  "register_output c m name hw = Inr hw' \<Longrightarrow> hw_inputs hw' = hw_inputs hw"
  by (auto simp: register_output_def split: if_splits sum.splits)

lemma register_input_entry:
  assumes "register_input c m name hw = Inr hw'" and "js_truthy (js_get m ''get'')"
  shows "\<exists>e. map_of (hw_inputs hw') name = Some e
           \<and> e_automap e = js_and (js_get c ''automap'') (JBool (JStr name = js_get c ''name''))
           \<and> set (hw_inputs hw') \<subseteq> insert (name, e) (set (hw_inputs hw))"
proof -
  from assms obtain code where
    hw': "hw' = hw\<lparr>hw_inputs :=
                   AList.update name
                     \<lparr>e_code = code,
                      e_automap = js_and (js_get c ''automap'')
                                    (JBool (JStr name = js_get c ''name'')),
                      e_range = js_get m ''range'',
                      e_where = js_get m ''where''\<rparr>
                     (hw_inputs hw),
                 hw_labels_params := AList.update name name (hw_labels_params hw)\<rparr>"
    by (auto simp: register_input_def split: sum.splits)
  let ?e = "\<lparr>e_code = code,
            e_automap = js_and (js_get c ''automap'') (JBool (JStr name = js_get c ''name'')),
            e_range = js_get m ''range'', e_where = js_get m ''where''\<rparr>"
  have "map_of (hw_inputs hw') name = Some ?e" by (simp add: hw' update_conv')
  moreover have "e_automap ?e
      = js_and (js_get c ''automap'') (JBool (JStr name = js_get c ''name''))" by simp
  moreover have "set (hw_inputs hw') \<subseteq> insert (name, ?e) (set (hw_inputs hw))"
    by (simp add: hw' set_alist_update)
  ultimately show ?thesis by blast
qed

lemma register_input_skip:
  "register_input c m name hw = Inr hw' \<Longrightarrow> \<not> js_truthy (js_get m ''get'') \<Longrightarrow> hw' = hw"
  by (simp add: register_input_def)

lemma register_mapping_ok:
  assumes "register_mapping c hw m = Inr hw'" and "c \<in> set comps"
    and "\<not> js_truthy (js_get c ''meta'')" and "inputs_ok comps hw0 hw"
  shows "inputs_ok comps hw0 hw'"
proof -
  from assms(1) obtain mapping cname name hw1 where
    m: "m = JObj mapping" and cn: "js_get c ''name'' = JStr cname"
    and ri: "register_input c mapping name hw = Inr hw1"
    and ro: "register_output c mapping name hw1 = Inr hw'"
    by (auto simp: register_mapping_def split: jsval.splits sum.splits)
  have in1: "inputs_ok comps hw0 hw1"
  proof (cases "js_truthy (js_get mapping ''get'')")
    case False
    then show ?thesis using register_input_skip [OF ri] assms(4) by simp
  next
    case True
    from register_input_entry [OF ri True] obtain e where
      e: "e_automap e = js_and (js_get c ''automap'') (JBool (JStr name = js_get c ''name''))"
      and sub: "set (hw_inputs hw1) \<subseteq> insert (name, e) (set (hw_inputs hw))"
      by blast
    have new: "js_truthy (e_automap e) \<longrightarrow> automap_instance comps name"
      using assms(2,3) by (auto simp: e js_and_truthy automap_instance_def list_ex_iff)
    show ?thesis
      unfolding inputs_ok_def
    proof (intro ballI, clarify)
      fix k e' assume mem: "(k, e') \<in> set (hw_inputs hw1)"
        and nold: "(k, e') \<notin> set (hw_inputs hw0)" and tr: "js_truthy (e_automap e')"
      from mem sub have "(k, e') = (name, e) \<or> (k, e') \<in> set (hw_inputs hw)" by auto
      then show "automap_instance comps k"
      proof
        assume "(k, e') = (name, e)"
        then show ?thesis using new tr by simp
      next
        assume "(k, e') \<in> set (hw_inputs hw)"
        then show ?thesis using assms(4) nold tr by (auto simp: inputs_ok_def)
      qed
    qed
  qed
  then show ?thesis
    using register_output_inputs [OF ro] by (simp add: inputs_ok_def)
qed

lemma for_of_mappings_ok:
  assumes "for_of (register_mapping c) hw ms = Inr hw'" and "c \<in> set comps"
    and "\<not> js_truthy (js_get c ''meta'')" and "inputs_ok comps hw0 hw"
  shows "inputs_ok comps hw0 hw'"
  using assms
proof (induction ms arbitrary: hw)
  case Nil
  then show ?case by simp
next
  case (Cons m ms)
  from Cons.prems(1) obtain hw1 where
    1: "register_mapping c hw m = Inr hw1" and 2: "for_of (register_mapping c) hw1 ms = Inr hw'"
    by (auto split: sum.splits)
  have "inputs_ok comps hw0 hw1"
    using register_mapping_ok [OF 1 Cons.prems(2,3,4)] .
  then show ?case using Cons.IH [OF 2 Cons.prems(2,3)] by simp
qed

lemma register_component_ok:
  assumes "register_component hw c = Inr hw'" and "c \<in> set comps" and "inputs_ok comps hw0 hw"
  shows "inputs_ok comps hw0 hw'"
proof (cases "js_truthy (js_get c ''meta'')")
  case True
  then show ?thesis using assms by (simp add: register_component_def)
next
  case False
  with assms(1) obtain ms where "for_of (register_mapping c) hw ms = Inr hw'"
    by (auto simp: register_component_def split: jsval.splits)
  then show ?thesis using for_of_mappings_ok assms(2,3) False by blast
qed

lemma for_of_components_ok:
  assumes "for_of register_component hw cs = Inr hw'" and "set cs \<subseteq> set comps"
    and "inputs_ok comps hw0 hw"
  shows "inputs_ok comps hw0 hw'"
  using assms
proof (induction cs arbitrary: hw)
  case Nil
  then show ?case by simp
next
  case (Cons c cs)
  from Cons.prems(1) obtain hw1 where
    1: "register_component hw c = Inr hw1" and 2: "for_of register_component hw1 cs = Inr hw'"
    by (auto split: sum.splits)
  have "c \<in> set comps" using Cons.prems(2) by simp
  then have "inputs_ok comps hw0 hw1"
    using register_component_ok [OF 1 _ Cons.prems(3)] by simp
  then show ?case using Cons.IH [OF 2] Cons.prems(2) by simp
qed

text \<open>
  generate_daisy gives the node of an input the automap flag of its table entry, unless
  a data handler, an output, a raw channel or a MIDI port of the same name replaces
  the node.
\<close>

lemma put_all_other:
  "x \<notin> fst ` set kvs \<Longrightarrow> put_all nodes kvs x = nodes x"
  unfolding put_all_def
  by (induction kvs arbitrary: nodes) (auto split: prod.splits)

lemma put_all_entry:
  "distinct (map fst kvs) \<Longrightarrow> (k, v) \<in> set kvs \<Longrightarrow> put_all nodes kvs k = Some v"
proof (induction kvs arbitrary: nodes)
  case Nil
  then show ?case by simp
next
  case (Cons kv kvs)
  obtain k' v' where kv: "kv = (k', v')" by (cases kv)
  show ?case
  proof (cases "(k, v) = kv")
    case True
    then have "k \<notin> fst ` set kvs" using Cons.prems(1) kv by auto
    then have "put_all (nodes(k \<mapsto> v)) kvs k = (nodes(k \<mapsto> v)) k"
      by (rule put_all_other)
    then show ?thesis using True kv by (simp add: put_all_def)
  next
    case False
    then have "(k, v) \<in> set kvs" using Cons.prems(2) by auto
    then have "put_all (nodes(k' \<mapsto> v')) kvs k = Some v"
      using Cons.IH Cons.prems(1) by simp
    then show ?thesis using kv by (simp add: put_all_def)
  qed
qed

lemma generate_daisy_input_node:
  assumes "distinct (map fst (hw_inputs hw))" and "(k, e) \<in> set (hw_inputs hw)"
    and "k \<notin> set handlers" and "k \<notin> fst ` set (hw_outputs hw)"
    and "k \<notin> set (numbered ''dsy_in'' n)" and "k \<notin> set (numbered ''dsy_out'' n)"
    and "k \<noteq> ''dsy_midi_in''" and "k \<noteq> ''dsy_midi_out''"
  shows "snd (generate_daisy hw handlers n midi_in midi_out nodes) k = Some (input_node e)"
proof -
  let ?kvs = "map (\<lambda>(name, e). (name, input_node e)) (hw_inputs hw)"
  have d: "distinct (map fst ?kvs)"
    using assms(1) by (simp add: comp_def case_prod_unfold)
  have m: "(k, input_node e) \<in> set ?kvs" using assms(2) by force
  have 1: "put_all nodes ?kvs k = Some (input_node e)"
    using put_all_entry [OF d m] .
  show ?thesis
    using 1 assms(3-8)
    by (simp add: generate_daisy_def Let_def put_all_other image_iff comp_def case_prod_unfold)
qed

text \<open>
  C10. An input entry a component contributes carries a truthy automap flag exactly
  when the component declares automap and the mapping's interpolated name is the
  instance name, so every derived mapping (another name) registers with a falsy flag.
  After the registration loops, every entry they wrote with a truthy flag is stored
  under the name of a non-meta component that declares automap; and an input the
  fill-pass connects to a parameter, whose node carries the flag of such an entry, is
  such an instance name.
\<close>

theorem automap_only_on_instance_name:
  assumes "register_components components hw = Inr hw'"
  shows "(\<forall>c mapping name t t'.
            register_input c mapping name t = Inr t' \<and> js_truthy (js_get mapping ''get'')
            \<longrightarrow> (\<exists>e. map_of (hw_inputs t') name = Some e
                  \<and> (js_truthy (e_automap e)
                       \<longleftrightarrow> js_truthy (js_get c ''automap'') \<and> js_get c ''name'' = JStr name)))
       \<and> (\<forall>(k, e) \<in> set (hw_inputs hw').
            (k, e) \<notin> set (hw_inputs hw) \<and> js_truthy (e_automap e)
            \<longrightarrow> automap_instance components k)
       \<and> (\<forall>nodes inputs params a p e.
            (a, p) \<in> set (new_edges nodes inputs params)
            \<and> (a, e) \<in> set (hw_inputs hw') \<and> (a, e) \<notin> set (hw_inputs hw)
            \<and> map_option nd_automap (nodes a) = Some (js_truthy (e_automap e))
            \<longrightarrow> automap_instance components a)"
proof (intro conjI)
  show "\<forall>c mapping name t t'.
            register_input c mapping name t = Inr t' \<and> js_truthy (js_get mapping ''get'')
            \<longrightarrow> (\<exists>e. map_of (hw_inputs t') name = Some e
                  \<and> (js_truthy (e_automap e)
                       \<longleftrightarrow> js_truthy (js_get c ''automap'') \<and> js_get c ''name'' = JStr name))"
  proof (intro allI impI)
    fix c mapping name t t'
    assume a: "register_input c mapping name t = Inr t' \<and> js_truthy (js_get mapping ''get'')"
    from register_input_entry [of c mapping name t t'] a obtain e where
      "map_of (hw_inputs t') name = Some e"
      "e_automap e = js_and (js_get c ''automap'') (JBool (JStr name = js_get c ''name''))"
      by blast
    then show "\<exists>e. map_of (hw_inputs t') name = Some e
                  \<and> (js_truthy (e_automap e)
                       \<longleftrightarrow> js_truthy (js_get c ''automap'') \<and> js_get c ''name'' = JStr name)"
      by (auto simp: js_and_truthy)
  qed
next
  have start: "inputs_ok components hw hw" by (auto simp: inputs_ok_def)
  have ok: "inputs_ok components hw hw'"
    using for_of_components_ok [OF _ subset_refl start] assms
    by (simp add: register_components_def)
  then show table: "\<forall>(k, e) \<in> set (hw_inputs hw').
            (k, e) \<notin> set (hw_inputs hw) \<and> js_truthy (e_automap e)
            \<longrightarrow> automap_instance components k"
    by (auto simp: inputs_ok_def)
  show "\<forall>nodes inputs params a p e.
            (a, p) \<in> set (new_edges nodes inputs params)
            \<and> (a, e) \<in> set (hw_inputs hw') \<and> (a, e) \<notin> set (hw_inputs hw)
            \<and> map_option nd_automap (nodes a) = Some (js_truthy (e_automap e))
            \<longrightarrow> automap_instance components a"
  proof (intro allI impI)
    fix nodes inputs params a p e
    assume h: "(a, p) \<in> set (new_edges nodes inputs params)
            \<and> (a, e) \<in> set (hw_inputs hw') \<and> (a, e) \<notin> set (hw_inputs hw)
            \<and> map_option nd_automap (nodes a) = Some (js_truthy (e_automap e))"
    then have "a \<in> set (free_inputs nodes inputs)"
      by (auto simp: new_edges_def dest: set_zip_leftD)
    then have "automappable nodes a" by (simp add: free_inputs_def)
    then have "js_truthy (e_automap e)"
      using h by (auto simp: automappable_def split: option.splits)
    then show "automap_instance components a" using table h by auto
  qed
qed

theorem automap_only_on_instance_name_witness:
  "\<exists>hw'. register_components example_components empty_tables = Inr hw'
     \<and> map (\<lambda>(k, e). (k, js_truthy (e_automap e))) (hw_inputs hw')
         = [(''knob1'', True), (''sw1'', True), (''sw1_rise'', False),
            (''sw1_fall'', False), (''sw1_seconds'', False)]
     \<and> (\<forall>(k, e) \<in> set (hw_inputs hw').
           js_truthy (e_automap e) \<longrightarrow> automap_instance example_components k)"
proof -
  have run: "map_sum id (\<lambda>t. map (\<lambda>(k, e). (k, js_truthy (e_automap e))) (hw_inputs t))
               (register_components example_components empty_tables)
             = Inr [(''knob1'', True), (''sw1'', True), (''sw1_rise'', False),
                    (''sw1_fall'', False), (''sw1_seconds'', False)]"
    by code_simp
  then obtain hw' where hw': "register_components example_components empty_tables = Inr hw'"
    by (cases "register_components example_components empty_tables") auto
  have flags: "map (\<lambda>(k, e). (k, js_truthy (e_automap e))) (hw_inputs hw')
         = [(''knob1'', True), (''sw1'', True), (''sw1_rise'', False),
            (''sw1_fall'', False), (''sw1_seconds'', False)]"
    using run by (simp add: hw')
  have "\<forall>(k, e) \<in> set (hw_inputs hw').
          (k, e) \<notin> set (hw_inputs empty_tables) \<and> js_truthy (e_automap e)
          \<longrightarrow> automap_instance example_components k"
    using automap_only_on_instance_name [OF hw'] by blast
  then have all: "\<forall>(k, e) \<in> set (hw_inputs hw').
           js_truthy (e_automap e) \<longrightarrow> automap_instance example_components k"
    by (simp add: empty_tables_def)
  show ?thesis
    by (intro exI [of _ hw'] conjI) (rule hw', rule flags, rule all)
qed

subsection \<open>Interpolation and templates\<close>





lemma property_text_own:
  "map_of data key = Some v \<Longrightarrow> property_text data key = to_string v"
  by (simp add: property_text_def)


text \<open>
  A key the node does not hold but its prototype does is replaced by the text of the
  inherited value, and a substitution of \<open>template\<close> is expanded where the identifier
  is a key.
\<close>

lemma interpolate_inherited_example:
  "interpolate ''x = $<constructor>;'' [(''name'', JStr ''led1'')]
     = ''x = function Object() { [native code] };''"
  by code_simp

lemma template_example:
  "template ''${name}_rise'' [(''name'', JStr ''sw1''), (''pin'', JNum 3)] = Inr ''sw1_rise''"
  by code_simp




subsection \<open>The component registry\<close>

lemma js_get_update: "js_get (AList.update k v obj) k' = (if k' = k then v else js_get obj k')"
  by (simp add: js_get_def update_conv')

lemma kind_of_named: "kind_of (AList.update ''name'' v def) = kind_of def"
  by (simp add: kind_of_def js_get_update)

lemma copy_defaults_get:
  "distinct (map fst component) \<Longrightarrow>
     js_get (copy_defaults def component) k
       = (if js_is_undefined (js_get def k) \<and> k \<in> fst ` set component
          then js_get component k else js_get def k)"
proof (induction component arbitrary: def)
  case Nil
  then show ?case by simp
next
  case (Cons kv component)
  obtain k' v where kv: "kv = (k', v)" by (cases kv)
  have d: "distinct (map fst component)" and nk: "k' \<notin> fst ` set component"
    using Cons.prems kv by auto
  show ?case
  proof (cases "k = k'")
    case True
    then show ?thesis
      using Cons.IH [OF d] nk kv by (simp add: js_get_update) (simp add: js_get_def)
  next
    case False
    then show ?thesis
      using Cons.IH [OF d] kv by (simp add: js_get_update) (simp add: js_get_def)
  qed
qed

lemma flesh_out_intended:
  "flesh_out intended_scope (name, def) =
     (case map_of component_defs (kind_of def) of
        Some component \<Rightarrow> Inr (copy_defaults (AList.update ''name'' (JStr name) def) component)
      | None \<Rightarrow>
          if kind_of def \<in> set object_prototype_names
          then Inr (AList.update ''name'' (JStr name) def)
          else Inl (Error (''undefined component kind: '' @ kind_of def)))"
  by (simp add: flesh_out_def intended_scope_def lookup_identifier_def kind_of_named Let_def
      split: option.splits)

lemma flesh_out_module:
  "flesh_out shared_module_scope pair = Inl (ReferenceError ''component_defs is not defined'')"
  by (cases pair) (simp add: flesh_out_def shared_module_scope_def lookup_identifier_def Let_def)

lemma target_components_module:
  "components \<noteq> [] \<Longrightarrow>
     target_components shared_module_scope components
       = Inl (ReferenceError ''component_defs is not defined'')"
proof -
  assume "components \<noteq> []"
  then have "sort_key (\<lambda>pair. kind_of (snd pair)) components \<noteq> []"
    by (metis length_sort length_0_conv)
  then obtain p ps where "sort_key (\<lambda>pair. kind_of (snd pair)) components = p # ps"
    by (cases "sort_key (\<lambda>pair. kind_of (snd pair)) components") auto
  then show ?thesis by (simp add: target_components_def flesh_out_module)
qed

text \<open>
  C8, the code at a target with one component. In the module's scope the lookup of the
  identifier \<open>component_defs\<close> fails before any kind is looked up: a known kind
  (AnalogControl) gets no defaults and an unknown kind (Knob) is not named by the
  error. In the scope where the identifier names the registry, the unknown kind is
  reported by name and the known kind gets its defaults, the descriptor's own fields
  kept.
\<close>

theorem registry_identifier_unbound:
  "target_components shared_module_scope
      [(''knob1'', [(''component'', JStr ''AnalogControl''), (''pin'', JNum 21)])]
     = Inl (ReferenceError ''component_defs is not defined'')
   \<and> target_components shared_module_scope
      [(''knob1'', [(''component'', JStr ''Knob''), (''pin'', JNum 21)])]
     = Inl (ReferenceError ''component_defs is not defined'')
   \<and> target_components intended_scope
      [(''knob1'', [(''component'', JStr ''Knob''), (''pin'', JNum 21)])]
     = Inl (Error ''undefined component kind: Knob'')
   \<and> map_sum id (map (\<lambda>c. (js_get c ''name'', js_get c ''pin'', js_get c ''typename'', js_get c ''flip'')))
       (target_components intended_scope
         [(''knob1'', [(''component'', JStr ''AnalogControl''), (''pin'', JNum 21)])])
     = Inr [(JStr ''knob1'', JNum 21, JStr ''daisy::AnalogControl'', JBool False)]"
  by code_simp

end
